theory Spec2Isabelle
  imports Main "HOL-Library.Word" "HOL-Library.Product_Lexorder"
begin

unbundle bit_operations_syntax

section \<open>The SHA-1 kernel of hasher.py\<close>

text \<open>
  The OpenCL kernel \<open>sha1_kernel\<close> works on \<open>uchar\<close> (8 bit) and \<open>uint\<close> (32 bit)
  values; both are modelled as words, so additions wrap and shifts drop bits as on the
  device. The message length is the kernel's \<open>int length\<close>; it is a natural number
  here, because the host passes \<open>len(file_data)\<close>. None of the kernel's \<open>int\<close>
  computations on positions leaves the 32 bit range while \<open>length < 2 ^ 31\<close>; the one
  that does, \<open>length * 8\<close>, is stored into the \<open>uint bit_len\<close> and is modelled with
  its wrap-around.
\<close>

type_synonym uchar = "8 word"
type_synonym uint = "32 word"
type_synonym hstate = "uint \<times> uint \<times> uint \<times> uint \<times> uint"

definition h_init :: hstate where
  "h_init = (0x67452301, 0xEFCDAB89, 0x98BADCFE, 0x10325476, 0xC3D2E1F0)"

definition k_const :: "uint list" where
  "k_const = [0x5A827999, 0x6ED9EBA1, 0x8F1BBCDC, 0xCA62C1D6]"

text \<open>Lines 30 to 39: one byte of the chunk, by its position in the message.\<close>

definition chunk_byte :: "uchar list \<Rightarrow> nat \<Rightarrow> nat \<Rightarrow> nat \<Rightarrow> uchar" where
  "chunk_byte input len chunk_idx i =
     (let pos = chunk_idx * 64 + i
      in if pos < len then input ! pos
         else if pos = len then 0x80
         else 0)"

definition fill_chunk :: "uchar list \<Rightarrow> nat \<Rightarrow> nat \<Rightarrow> uchar list" where
  "fill_chunk input len chunk_idx = map (chunk_byte input len chunk_idx) [0..<64]"

text \<open>
  Lines 43 to 47: the loop that stores \<open>bit_len\<close> into the last eight bytes, lowest
  byte last. The step returns the chunk and the shifted \<open>bit_len\<close>.
\<close>

definition length_step :: "nat \<Rightarrow> uchar list \<times> uint \<Rightarrow> uchar list \<times> uint" where
  "length_step i s =
     (case s of (chunk, bit_len) \<Rightarrow>
        (chunk[63 - i := ucast (bit_len AND 0xFF)], drop_bit 8 bit_len))"

definition put_length :: "nat \<Rightarrow> uchar list \<Rightarrow> uchar list" where
  "put_length len chunk =
     fst (fold length_step [0..<8] (chunk, (word_of_nat (len * 8) :: uint)))"

text \<open>Lines 30 to 48: the chunk as it stands before the words are read.\<close>

definition build_chunk :: "uchar list \<Rightarrow> nat \<Rightarrow> nat \<Rightarrow> uchar list" where
  "build_chunk input len chunk_idx =
     (let chunk = fill_chunk input len chunk_idx
      in if chunk_idx = len div 64 then put_length len chunk else chunk)"

text \<open>Lines 51 to 56: sixteen big-endian words.\<close>

definition chunk_word :: "uchar list \<Rightarrow> nat \<Rightarrow> uint" where
  "chunk_word chunk i =
     push_bit 24 (ucast (chunk ! (4 * i))) OR
     push_bit 16 (ucast (chunk ! (4 * i + 1))) OR
     push_bit 8 (ucast (chunk ! (4 * i + 2))) OR
     ucast (chunk ! (4 * i + 3))"

text \<open>
  Lines 59 to 62: the other sixty-four words, each from four earlier ones. The array
  \<open>w\<close> is the list of the words written so far: step \<open>i\<close> finds \<open>i\<close> words and
  writes \<open>w[i]\<close> at the end.
\<close>

definition extend_step :: "nat \<Rightarrow> uint list \<Rightarrow> uint list" where
  "extend_step i w =
     (let temp = w ! (i - 3) XOR w ! (i - 8) XOR w ! (i - 14) XOR w ! (i - 16)
      in w @ [push_bit 1 temp OR drop_bit 31 temp])"

definition schedule :: "uchar list \<Rightarrow> uint list" where
  "schedule chunk =
     fold extend_step [16..<80] (map (chunk_word chunk) [0..<16])"

text \<open>Lines 72 to 93: one round of the main loop.\<close>

definition round_step :: "uint list \<Rightarrow> nat \<Rightarrow> hstate \<Rightarrow> hstate" where
  "round_step w i s =
     (case s of (a, b, c, d, e) \<Rightarrow>
        let (f, k_temp) =
              (if i < 20 then ((b AND c) OR (NOT b AND d), k_const ! 0)
               else if i < 40 then (b XOR c XOR d, k_const ! 1)
               else if i < 60 then ((b AND c) OR (b AND d) OR (c AND d), k_const ! 2)
               else (b XOR c XOR d, k_const ! 3));
            temp = (push_bit 5 a OR drop_bit 27 a) + f + e + k_temp + w ! i
        in (temp, a, push_bit 30 b OR drop_bit 2 b, c, d))"

text \<open>Lines 51 to 100: the words, the eighty rounds and the addition to the state.\<close>

definition process_chunk :: "uchar list \<Rightarrow> hstate \<Rightarrow> hstate" where
  "process_chunk chunk h =
     (case h of (h0, h1, h2, h3, h4) \<Rightarrow>
        case fold (round_step (schedule chunk)) [0..<80] h of (a, b, c, d, e) \<Rightarrow>
          (h0 + a, h1 + b, h2 + c, h3 + d, h4 + e))"

text \<open>
  Line 29: \<open>for (chunk_idx = 0; chunk_idx <= length / 64; chunk_idx++)\<close>. The loop is
  a recursive function of the counter and the running state.
\<close>

function chunk_loop :: "uchar list \<Rightarrow> nat \<Rightarrow> nat \<Rightarrow> hstate \<Rightarrow> hstate" where
  "chunk_loop input len chunk_idx h =
     (if chunk_idx \<le> len div 64
      then chunk_loop input len (chunk_idx + 1)
             (process_chunk (build_chunk input len chunk_idx) h)
      else h)"
  by pat_completeness auto
termination
  by (relation "measure (\<lambda>(input, len, chunk_idx, h). len div 64 + 1 - chunk_idx)") auto

declare chunk_loop.simps [simp del]

text \<open>The chunks that the loop of line 29 builds, in the order it processes them.\<close>

function chunk_trace :: "uchar list \<Rightarrow> nat \<Rightarrow> nat \<Rightarrow> uchar list list" where
  "chunk_trace input len chunk_idx =
     (if chunk_idx \<le> len div 64
      then build_chunk input len chunk_idx # chunk_trace input len (chunk_idx + 1)
      else [])"
  by pat_completeness auto
termination
  by (relation "measure (\<lambda>(input, len, chunk_idx). len div 64 + 1 - chunk_idx)") auto

declare chunk_trace.simps [simp del]

text \<open>Lines 104 to 110: the five words as twenty bytes, highest byte first.\<close>

definition word_bytes :: "uint \<Rightarrow> uchar list" where
  "word_bytes x = [ucast (drop_bit 24 x), ucast (drop_bit 16 x), ucast (drop_bit 8 x), ucast x]"

definition output_bytes :: "hstate \<Rightarrow> uchar list" where
  "output_bytes h =
     (case h of (h0, h1, h2, h3, h4) \<Rightarrow> concat (map word_bytes [h0, h1, h2, h3, h4]))"

definition sha1_kernel :: "uchar list \<Rightarrow> nat \<Rightarrow> uchar list" where
  "sha1_kernel input len = output_bytes (chunk_loop input len 0 h_init)"

text \<open>Line 178: \<open>format(byte, '02x')\<close> for each byte, joined.\<close>

definition hex_digit :: "nat \<Rightarrow> char" where
  "hex_digit n = ''0123456789abcdef'' ! n"

definition format_02x :: "uchar \<Rightarrow> string" where
  "format_02x byte = [hex_digit (unat byte div 16), hex_digit (unat byte mod 16)]"

definition hash_hex :: "uchar list \<Rightarrow> string" where
  "hash_hex output_data = concat (map format_02x output_data)"

section \<open>The kernel on the memory of a work item\<close>

text \<open>
  The same kernel once more, now as the device runs it: the arrays \<open>chunk\<close> and \<open>w\<close> and
  the output buffer are stores from indices to values that hold whatever the device has
  left in them when the work item starts, every assignment to an element is an update of
  the store, and \<open>length\<close> is the \<open>int\<close> that the host has put into \<open>lengths\<close>, also
  when it is negative. The launch of line 171 has one work item, so \<open>idx\<close> is 0. Every
  index that the kernel uses lies inside its array.
\<close>

type_synonym 'a array = "nat \<Rightarrow> 'a"

record work_item_memory =
  chunk_mem :: "uchar array"
  w_mem :: "uint array"
  output_mem :: "uchar array"

text \<open>The division of C on \<open>int\<close>, which rounds towards zero.\<close>

definition c_div :: "int \<Rightarrow> int \<Rightarrow> int" where
  "c_div a b = (if (a < 0) = (b < 0) then \<bar>a\<bar> div \<bar>b\<bar> else - (\<bar>a\<bar> div \<bar>b\<bar>))"

text \<open>Lines 30 to 39.\<close>

definition exec_fill_step :: "uchar list \<Rightarrow> int \<Rightarrow> nat \<Rightarrow> nat \<Rightarrow> uchar array \<Rightarrow> uchar array" where
  "exec_fill_step input len chunk_idx i chunk =
     (let pos = int chunk_idx * 64 + int i
      in if pos < len then chunk(i := input ! nat pos)
         else if pos = len then chunk(i := 0x80)
         else chunk(i := 0))"

definition exec_fill :: "uchar list \<Rightarrow> int \<Rightarrow> nat \<Rightarrow> uchar array \<Rightarrow> uchar array" where
  "exec_fill input len chunk_idx chunk = fold (exec_fill_step input len chunk_idx) [0..<64] chunk"

text \<open>Lines 43 to 47; \<open>length * 8\<close> goes into the \<open>uint bit_len\<close> with its low 32 bits.\<close>

definition exec_length_step :: "nat \<Rightarrow> uchar array \<times> uint \<Rightarrow> uchar array \<times> uint" where
  "exec_length_step i s =
     (case s of (chunk, bit_len) \<Rightarrow>
        (chunk(63 - i := ucast (bit_len AND 0xFF)), drop_bit 8 bit_len))"

definition exec_length :: "int \<Rightarrow> uchar array \<Rightarrow> uchar array" where
  "exec_length len chunk =
     fst (fold exec_length_step [0..<8] (chunk, (word_of_int (len * 8) :: uint)))"

text \<open>Lines 51 to 56.\<close>

definition exec_word_step :: "uchar array \<Rightarrow> nat \<Rightarrow> uint array \<Rightarrow> uint array" where
  "exec_word_step chunk i w =
     w(i := push_bit 24 (ucast (chunk (4 * i))) OR
            push_bit 16 (ucast (chunk (4 * i + 1))) OR
            push_bit 8 (ucast (chunk (4 * i + 2))) OR
            ucast (chunk (4 * i + 3)))"

definition exec_words :: "uchar array \<Rightarrow> uint array \<Rightarrow> uint array" where
  "exec_words chunk w = fold (exec_word_step chunk) [0..<16] w"

text \<open>Lines 59 to 62.\<close>

definition exec_extend_step :: "nat \<Rightarrow> uint array \<Rightarrow> uint array" where
  "exec_extend_step i w =
     (let temp = w (i - 3) XOR w (i - 8) XOR w (i - 14) XOR w (i - 16)
      in w(i := push_bit 1 temp OR drop_bit 31 temp))"

definition exec_extend :: "uint array \<Rightarrow> uint array" where
  "exec_extend w = fold exec_extend_step [16..<80] w"

text \<open>Lines 72 to 93.\<close>

definition exec_round_step :: "uint array \<Rightarrow> nat \<Rightarrow> hstate \<Rightarrow> hstate" where
  "exec_round_step w i s =
     (case s of (a, b, c, d, e) \<Rightarrow>
        let (f, k_temp) =
              (if i < 20 then ((b AND c) OR (NOT b AND d), k_const ! 0)
               else if i < 40 then (b XOR c XOR d, k_const ! 1)
               else if i < 60 then ((b AND c) OR (b AND d) OR (c AND d), k_const ! 2)
               else (b XOR c XOR d, k_const ! 3));
            temp = (push_bit 5 a OR drop_bit 27 a) + f + e + k_temp + w i
        in (temp, a, push_bit 30 b OR drop_bit 2 b, c, d))"

text \<open>
  Lines 30 to 100, the body of the loop over the chunks: it changes the running hash
  and leaves its bytes and words in the two arrays for the next turn.
\<close>

definition exec_chunk :: "uchar list \<Rightarrow> int \<Rightarrow> nat \<Rightarrow> hstate \<times> uchar array \<times> uint array \<Rightarrow> hstate \<times> uchar array \<times> uint array" where
  "exec_chunk input len chunk_idx s =
     (case s of (h, chunk, w) \<Rightarrow>
        let chunk1 = exec_fill input len chunk_idx chunk;
            chunk2 = (if int chunk_idx = c_div len 64 then exec_length len chunk1 else chunk1);
            w1 = exec_words chunk2 w;
            w2 = exec_extend w1
        in case h of (h0, h1, h2, h3, h4) \<Rightarrow>
             case fold (exec_round_step w2) [0..<80] h of (a, b, c, d, e) \<Rightarrow>
               ((h0 + a, h1 + b, h2 + c, h3 + d, h4 + e), chunk2, w2))"

text \<open>Line 29.\<close>

function exec_loop :: "uchar list \<Rightarrow> int \<Rightarrow> nat \<Rightarrow> hstate \<times> uchar array \<times> uint array \<Rightarrow> hstate \<times> uchar array \<times> uint array" where
  "exec_loop input len chunk_idx s =
     (if int chunk_idx \<le> c_div len 64
      then exec_loop input len (chunk_idx + 1) (exec_chunk input len chunk_idx s)
      else s)"
  by pat_completeness auto
termination
  by (relation "measure (\<lambda>(input, len, chunk_idx, s). nat (c_div len 64 + 1 - int chunk_idx))") auto

declare exec_loop.simps [simp del]

text \<open>Lines 104 to 110, with \<open>idx = 0\<close>.\<close>

definition exec_output_step :: "hstate \<Rightarrow> nat \<Rightarrow> uchar array \<Rightarrow> uchar array" where
  "exec_output_step h i output =
     (let hash = (case h of (h0, h1, h2, h3, h4) \<Rightarrow> [h0, h1, h2, h3, h4])
      in output(i * 4 := ucast (drop_bit 24 (hash ! i)),
                i * 4 + 1 := ucast (drop_bit 16 (hash ! i)),
                i * 4 + 2 := ucast (drop_bit 8 (hash ! i)),
                i * 4 + 3 := ucast (hash ! i)))"

text \<open>
  One run of the kernel, and the 20 bytes that line 175 copies out of the output buffer
  afterwards.
\<close>

definition sha1_kernel_exec :: "work_item_memory \<Rightarrow> uchar list \<Rightarrow> int \<Rightarrow> uchar list" where
  "sha1_kernel_exec mem input len =
     (case exec_loop input len 0 (h_init, chunk_mem mem, w_mem mem) of
        (h, chunk, w) \<Rightarrow> map (fold (exec_output_step h) [0..<5] (output_mem mem)) [0..<20])"

section \<open>The host side of hasher.py\<close>

text \<open>
  Every way the program stops early is a value of \<open>error\<close>. The source prints a message
  and returns, or raises; the constructors carry the names of the specification:
  \<^item> \<open>NoComputeDeviceError\<close>: "No OpenCL platforms found." and "No OpenCL devices
    found." (lines 232 to 238);
  \<^item> \<open>InvalidDeviceError\<close>: "Error: Device ID ... is out of range." (line 242);
  \<^item> \<open>OutputExistsError\<close>: "Error: The file ... already exists." (line 216);
  \<^item> \<open>OutputNameExhaustedError\<close>: the \<open>FileExistsError\<close> of line 135;
  \<^item> \<open>FileReadError\<close>: \<open>open\<close> or \<open>read\<close> raises on the file (lines 158, 159);
  \<^item> \<open>HashExecutionError\<close>: a call of the OpenCL binding raises for the file
    (lines 163 to 175);
  \<^item> \<open>IndexError\<close>: \<open>sorted_devices[0]\<close> on an empty list (line 126);
  \<^item> \<open>OverflowError\<close>: \<open>np.array\<close> refuses a length that is no \<open>int32\<close> (line 165).
\<close>

datatype error =
    NoComputeDeviceError
  | InvalidDeviceError
  | OutputExistsError
  | OutputNameExhaustedError
  | FileReadError string
  | HashExecutionError string
  | IndexError
  | OverflowError

record device =
  name :: string
  vendor :: string
  global_mem_size :: nat
  type_str :: string

text \<open>\<open>str.lower\<close> and \<open>str.startswith\<close>, on strings of ASCII characters.\<close>

definition lower_char :: "char \<Rightarrow> char" where
  "lower_char c =
     (case map_of (zip ''ABCDEFGHIJKLMNOPQRSTUVWXYZ'' ''abcdefghijklmnopqrstuvwxyz'') c of
        Some l \<Rightarrow> l
      | None \<Rightarrow> c)"

definition lower :: "string \<Rightarrow> string" where
  "lower s = map lower_char s"

definition startswith :: "string \<Rightarrow> string \<Rightarrow> bool" where
  "startswith s pre = (take (length pre) s = pre)"

text \<open>
  Lines 123 to 125: the sort key. Python compares the tuples lexicographically, with
  \<open>False < True\<close>; so does the order on products and on \<open>bool\<close> here.
\<close>

definition device_key :: "device \<Rightarrow> int \<times> bool \<times> bool \<times> bool" where
  "device_key d =
     (- int (global_mem_size d),
      startswith (lower (vendor d)) ''nvidia'',
      startswith (lower (vendor d)) ''amd'',
      startswith (lower (vendor d)) ''intel'')"

text \<open>The vendors that the sort key names.\<close>

definition known_vendor :: "device \<Rightarrow> bool" where
  "known_vendor d =
     (startswith (lower (vendor d)) ''nvidia'' \<or> startswith (lower (vendor d)) ''amd'' \<or>
      startswith (lower (vendor d)) ''intel'')"

text \<open>\<open>sorted\<close> is stable, as \<open>sort_key\<close> is.\<close>

definition sorted_devices :: "device list \<Rightarrow> device list" where
  "sorted_devices devices = sort_key device_key devices"

definition select_best_device :: "device list \<Rightarrow> error + device" where
  "select_best_device devices =
     (case sorted_devices devices of [] \<Rightarrow> Inl IndexError | d # _ \<Rightarrow> Inr d)"

text \<open>
  Lines 231 to 246 of \<open>main\<close>: \<open>platforms\<close> is the list of the device lists of the
  platforms, \<open>arg_device\<close> is \<open>args.device\<close>.
\<close>

definition resolve_device :: "device list list \<Rightarrow> int option \<Rightarrow> error + device" where
  "resolve_device platforms arg_device =
     (case platforms of
        [] \<Rightarrow> Inl NoComputeDeviceError
      | devices # _ \<Rightarrow>
          if devices = [] then Inl NoComputeDeviceError
          else (case arg_device of
                  Some i \<Rightarrow>
                    if i < 0 \<or> i \<ge> int (length devices) then Inl InvalidDeviceError
                    else Inr (devices ! nat i)
                | None \<Rightarrow> select_best_device devices))"

text \<open>Decimal digits of a number, as an f-string prints it.\<close>

fun str_nat :: "nat \<Rightarrow> string" where
  "str_nat n =
     (if n < 10 then [''0123456789'' ! n]
      else str_nat (n div 10) @ [''0123456789'' ! (n mod 10)])"

declare str_nat.simps [simp del]

text \<open>Lines 114 to 119: the lines that \<open>list_opencl_devices\<close> prints.\<close>

definition device_line :: "nat \<times> device \<Rightarrow> string" where
  "device_line p =
     (case p of (device_id, d) \<Rightarrow>
        ''Device ID: '' @ str_nat device_id @ '', Name: '' @ name d @ '', Type: '' @ type_str d)"

definition list_opencl_devices :: "device list list \<Rightarrow> string list" where
  "list_opencl_devices platforms =
     concat (map (\<lambda>devices. map device_line (enumerate 0 devices)) platforms)"

text \<open>\<open>os.path.join\<close> of two POSIX paths, and the format \<open>{i:03d}\<close>.\<close>

definition path_join :: "string \<Rightarrow> string \<Rightarrow> string" where
  "path_join a b =
     (if startswith b ''/'' then b
      else if a = [] \<or> last a = CHR ''/'' then a @ b
      else a @ ''/'' @ b)"

definition format_03d :: "nat \<Rightarrow> string" where
  "format_03d i = (let s = str_nat i in replicate (3 - length s) CHR ''0'' @ s)"

text \<open>
  Lines 129 to 135. \<open>path_exists\<close> is \<open>os.path.exists\<close> on the file system as it is
  during the call.
\<close>

definition candidate :: "string \<Rightarrow> string \<Rightarrow> nat \<Rightarrow> string" where
  "candidate base_name directory i =
     path_join directory (base_name @ ''_'' @ format_03d i @ ''.txt'')"

fun unique_loop :: "(string \<Rightarrow> bool) \<Rightarrow> string \<Rightarrow> string \<Rightarrow> nat list \<Rightarrow> error + string" where
  "unique_loop path_exists base_name directory [] = Inl OutputNameExhaustedError"
| "unique_loop path_exists base_name directory (i # rest) =
     (let full_path = candidate base_name directory i
      in if \<not> path_exists full_path then Inr full_path
         else unique_loop path_exists base_name directory rest)"

definition generate_unique_filename :: "(string \<Rightarrow> bool) \<Rightarrow> string \<Rightarrow> string \<Rightarrow> error + string" where
  "generate_unique_filename path_exists base_name directory =
     unique_loop path_exists base_name directory [0..<1000]"

text \<open>Lines 211 to 223 of \<open>main\<close>: \<open>arg_output\<close> is \<open>args.output\<close>, \<open>cwd\<close> is \<open>os.getcwd()\<close>.\<close>

definition output_path :: "(string \<Rightarrow> bool) \<Rightarrow> string \<Rightarrow> string option \<Rightarrow> error + string" where
  "output_path path_exists cwd arg_output =
     (case arg_output of
        Some out \<Rightarrow>
          (let p = (if startswith out ''/'' then out else path_join cwd out)
           in if path_exists p then Inl OutputExistsError else Inr p)
      | None \<Rightarrow>
          (let p = path_join cwd (''output'' @ ''.csv'')
           in if path_exists p then generate_unique_filename path_exists ''output'' cwd
              else Inr p))"

text \<open>
  What \<open>perform_hashing\<close> meets outside the program, for a file and the device of the
  context:
  \<^item> the bytes that reading the file gives (\<open>None\<close> when \<open>open\<close> or \<open>read\<close> raises);
  \<^item> whether the allocations of the input and the output buffer succeed (lines 163 and
    164);
  \<^item> whether the installed NumPy stores the low 32 bits of a length that is no
    \<open>int32\<close>, as the versions before 2.0 do, or raises \<open>OverflowError\<close> (line 165);
  \<^item> whether the allocation of the length buffer, the launch and the copy succeed
    (lines 166 to 175);
  \<^item> what the arrays of the work item and the fresh output buffer hold before the
    kernel runs.
\<close>

record host_env =
  file_content :: "string \<Rightarrow> uchar list option"
  buffers_ok :: "device \<Rightarrow> string \<Rightarrow> bool"
  int32_wraps :: bool
  launch_ok :: "device \<Rightarrow> string \<Rightarrow> bool"
  device_memory :: "device \<Rightarrow> string \<Rightarrow> work_item_memory"

text \<open>
  Line 165: \<open>np.array([len(file_data)], dtype=np.int32)\<close>. A length below \<open>2 ^ 31\<close>
  is stored as it is. A longer one is refused by NumPy from version 2.0 on; the versions
  before store its low 32 bits, read as a signed number, which may be negative.
\<close>

definition np_int32 :: "bool \<Rightarrow> nat \<Rightarrow> error + int" where
  "np_int32 wraps n =
     (if n < 2 ^ 31 then Inr (int n)
      else if wraps then Inr (sint (word_of_nat n :: 32 word))
      else Inl OverflowError)"

text \<open>
  Lines 157 to 179, for one file: the kernel runs as one work item on the bytes of the
  file, with the length that line 165 has stored.
\<close>

definition hash_file :: "device \<Rightarrow> host_env \<Rightarrow> string \<Rightarrow> error + string \<times> string" where
  "hash_file context env file_path =
     (case file_content env file_path of
        None \<Rightarrow> Inl (FileReadError file_path)
      | Some file_data \<Rightarrow>
          if \<not> buffers_ok env context file_path then Inl (HashExecutionError file_path)
          else (case np_int32 (int32_wraps env) (length file_data) of
                  Inl e \<Rightarrow> Inl e
                | Inr len \<Rightarrow>
                    if \<not> launch_ok env context file_path
                    then Inl (HashExecutionError file_path)
                    else Inr (file_path,
                              hash_hex (sha1_kernel_exec (device_memory env context file_path)
                                          file_data len))))"

text \<open>
  Lines 153 to 181: the loop over the files. There is no handler inside the loop, so the
  first exception leaves the function and the list \<open>hashes\<close> is lost.
\<close>

fun hashing_loop :: "device \<Rightarrow> host_env \<Rightarrow> string list \<Rightarrow> (string \<times> string) list \<Rightarrow> error + (string \<times> string) list" where
  "hashing_loop context env [] hashes = Inr hashes"
| "hashing_loop context env (file_path # rest) hashes =
     (case hash_file context env file_path of
        Inl e \<Rightarrow> Inl e
      | Inr r \<Rightarrow> hashing_loop context env rest (hashes @ [r]))"

definition perform_hashing :: "device \<Rightarrow> host_env \<Rightarrow> string list \<Rightarrow> error + (string \<times> string) list" where
  "perform_hashing context env file_paths = hashing_loop context env file_paths []"

text \<open>\<open>os.path.basename\<close> and the extension of \<open>os.path.splitext\<close>.\<close>

definition basename :: "string \<Rightarrow> string" where
  "basename p = rev (takeWhile (\<lambda>c. c \<noteq> CHR ''/'') (rev p))"

definition file_extension :: "string \<Rightarrow> string" where
  "file_extension file_name =
     (if CHR ''.'' \<notin> set file_name then []
      else let ext = CHR ''.'' # rev (takeWhile (\<lambda>c. c \<noteq> CHR ''.'') (rev file_name));
               stem = take (length file_name - length ext) file_name
           in if \<exists>c \<in> set stem. c \<noteq> CHR ''.'' then ext else [])"

definition report_row :: "string \<times> string \<Rightarrow> string list" where
  "report_row r =
     (case r of (file, hash) \<Rightarrow> [file, basename file, file_extension (basename file), hash])"

text \<open>
  Lines 262 to 281 of \<open>main\<close>: one \<open>try\<close> around the hashing of all files and the writing
  of the report. \<open>Written\<close> holds the rows given to the CSV writer; \<open>Aborted\<close> is the
  handler, which prints "Error during hashing: ..." and writes nothing.
\<close>

datatype outcome = Written "string list list" | Aborted error

definition run_batch :: "device \<Rightarrow> host_env \<Rightarrow> string list \<Rightarrow> outcome" where
  "run_batch context env files_to_process =
     (case perform_hashing context env files_to_process of
        Inl e \<Rightarrow> Aborted e
      | Inr hashes \<Rightarrow>
          Written ([''FILE_PATH'', ''FILE_NAME'', ''FILE_EXTENSION'', ''HASH''] # map report_row hashes))"

section \<open>The reference: SHA-1 as FIPS 180 defines it\<close>

text \<open>
  These definitions follow the standard (and section 4.2 of the specification), not the
  kernel: the message is padded as a whole and then cut into blocks, the length field
  has 64 bits, the message schedule \<open>W\<close> is a recursive function of the round, and the
  functions \<open>Ch\<close>, \<open>Parity\<close> and \<open>Maj\<close> are written as the standard writes them.
\<close>

definition fips_Ch :: "uint \<Rightarrow> uint \<Rightarrow> uint \<Rightarrow> uint" where
  "fips_Ch x y z = (x AND y) XOR (NOT x AND z)"

definition fips_Parity :: "uint \<Rightarrow> uint \<Rightarrow> uint \<Rightarrow> uint" where
  "fips_Parity x y z = x XOR y XOR z"

definition fips_Maj :: "uint \<Rightarrow> uint \<Rightarrow> uint \<Rightarrow> uint" where
  "fips_Maj x y z = (x AND y) XOR (x AND z) XOR (y AND z)"

definition fips_f :: "nat \<Rightarrow> uint \<Rightarrow> uint \<Rightarrow> uint \<Rightarrow> uint" where
  "fips_f t x y z =
     (if t < 20 then fips_Ch x y z
      else if t < 40 then fips_Parity x y z
      else if t < 60 then fips_Maj x y z
      else fips_Parity x y z)"

definition fips_K :: "nat \<Rightarrow> uint" where
  "fips_K t =
     (if t < 20 then 0x5A827999
      else if t < 40 then 0x6ED9EBA1
      else if t < 60 then 0x8F1BBCDC
      else 0xCA62C1D6)"

definition fips_H0 :: hstate where
  "fips_H0 = (0x67452301, 0xEFCDAB89, 0x98BADCFE, 0x10325476, 0xC3D2E1F0)"

text \<open>The eight bytes of a 64 bit number, highest first.\<close>

definition be64 :: "nat \<Rightarrow> uchar list" where
  "be64 n = map (\<lambda>i. ucast (drop_bit (8 * (7 - i)) (word_of_nat n :: 64 word))) [0..<8]"

text \<open>
  Padding: the byte \<open>0x80\<close>, then the least number of zero bytes that brings the length
  to 56 modulo 64, then the length of the message in bits.
\<close>

definition fips_pad :: "uchar list \<Rightarrow> uchar list" where
  "fips_pad m =
     m @ [0x80] @ replicate ((119 - length m mod 64) mod 64) 0 @ be64 (8 * length m)"

definition fips_blocks :: "uchar list \<Rightarrow> uchar list list" where
  "fips_blocks bs = map (\<lambda>i. take 64 (drop (64 * i) bs)) [0..<length bs div 64]"

text \<open>The word \<open>M\<^sub>t\<close> of a block, big-endian.\<close>

definition fips_M :: "uchar list \<Rightarrow> nat \<Rightarrow> uint" where
  "fips_M block t =
     word_of_nat (unat (block ! (4 * t)) * 2 ^ 24 + unat (block ! (4 * t + 1)) * 2 ^ 16 +
                  unat (block ! (4 * t + 2)) * 2 ^ 8 + unat (block ! (4 * t + 3)))"

function fips_W :: "uchar list \<Rightarrow> nat \<Rightarrow> uint" where
  "fips_W block t =
     (if t < 16 then fips_M block t
      else word_rotl 1 (fips_W block (t - 3) XOR fips_W block (t - 8) XOR
                        fips_W block (t - 14) XOR fips_W block (t - 16)))"
  by pat_completeness auto
termination
  by (relation "measure (\<lambda>(block, t). t)") auto

declare fips_W.simps [simp del]

text \<open>The working variables after \<open>t\<close> rounds.\<close>

primrec fips_rounds :: "uchar list \<Rightarrow> nat \<Rightarrow> hstate \<Rightarrow> hstate" where
  "fips_rounds block 0 H = H"
| "fips_rounds block (Suc t) H =
     (case fips_rounds block t H of (a, b, c, d, e) \<Rightarrow>
        (word_rotl 5 a + fips_f t b c d + e + fips_K t + fips_W block t,
         a, word_rotl 30 b, c, d))"

definition fips_block :: "uchar list \<Rightarrow> hstate \<Rightarrow> hstate" where
  "fips_block block H =
     (case H of (H0, H1, H2, H3, H4) \<Rightarrow>
        case fips_rounds block 80 H of (a, b, c, d, e) \<Rightarrow>
          (a + H0, b + H1, c + H2, d + H3, e + H4))"

definition be32 :: "uint \<Rightarrow> uchar list" where
  "be32 x = map (\<lambda>i. ucast (drop_bit (8 * (3 - i)) x)) [0..<4]"

definition fips_sha1 :: "uchar list \<Rightarrow> uchar list" where
  "fips_sha1 m =
     (case fold fips_block (fips_blocks (fips_pad m)) fips_H0 of
        (H0, H1, H2, H3, H4) \<Rightarrow> be32 H0 @ be32 H1 @ be32 H2 @ be32 H3 @ be32 H4)"

section \<open>The chunks of the kernel\<close>

lemma chunk_trace_length:
  "length (chunk_trace input len chunk_idx) = len div 64 + 1 - chunk_idx"
proof (induction input len chunk_idx rule: chunk_trace.induct)
  case (1 input len chunk_idx)
  show ?case
  proof (cases "chunk_idx \<le> len div 64")
    case True
    with 1 show ?thesis by (subst chunk_trace.simps) simp
  next
    case False
    then show ?thesis by (subst chunk_trace.simps) simp
  qed
qed

lemma chunk_loop_trace:
  "chunk_loop input len chunk_idx h = fold process_chunk (chunk_trace input len chunk_idx) h"
proof (induction input len chunk_idx h rule: chunk_loop.induct)
  case (1 input len chunk_idx h)
  show ?case
  proof (cases "chunk_idx \<le> len div 64")
    case True
    with 1 show ?thesis
      by (subst chunk_loop.simps, subst chunk_trace.simps) simp
  next
    case False
    then show ?thesis
      by (subst chunk_loop.simps, subst chunk_trace.simps) simp
  qed
qed

lemma ucast_low_byte: "(ucast (x AND 0xFF :: uint) :: uchar) = ucast x"
proof -
  have m: "(0xFF :: uint) = mask 8"
    by (simp add: mask_eq_exp_minus_1)
  show ?thesis
    unfolding m by (rule bit_eqI) (auto simp: bit_simps)
qed

lemma drop_bit_32_uint: "n \<ge> 32 \<Longrightarrow> drop_bit n (x :: uint) = 0"
  by (rule bit_eqI) (auto simp: bit_simps dest: bit_imp_le_length)

lemma upt8: "[0..<8] = [0,1,2,3,4,5,6,7]"
  by (simp add: upt_rec)

lemma put_length_fold:
  "put_length len chunk =
     chunk[63 := ucast (word_of_nat (len * 8) :: uint),
           62 := ucast (drop_bit 8 (word_of_nat (len * 8) :: uint)),
           61 := ucast (drop_bit 16 (word_of_nat (len * 8) :: uint)),
           60 := ucast (drop_bit 24 (word_of_nat (len * 8) :: uint)),
           59 := 0, 58 := 0, 57 := 0, 56 := 0]"
  by (simp add: put_length_def upt8 length_step_def ucast_low_byte drop_bit_32_uint)


lemma put_length_closed:
  assumes "length chunk = 64"
  shows "put_length len chunk =
           take 56 chunk @ [0, 0, 0, 0] @ word_bytes (word_of_nat (len * 8))"
proof (rule nth_equalityI)
  show "length (put_length len chunk) =
          length (take 56 chunk @ [0, 0, 0, 0] @ word_bytes (word_of_nat (len * 8)))"
    using assms by (simp add: put_length_fold word_bytes_def)
next
  fix i
  assume "i < length (put_length len chunk)"
  then have i: "i < 64"
    using assms by (simp add: put_length_fold)
  then consider "i < 56" | "i = 56" | "i = 57" | "i = 58" | "i = 59"
    | "i = 60" | "i = 61" | "i = 62" | "i = 63"
    by linarith
  then show "put_length len chunk ! i =
          (take 56 chunk @ [0, 0, 0, 0] @ word_bytes (word_of_nat (len * 8))) ! i"
    using assms
    by cases (simp_all add: put_length_fold word_bytes_def nth_append)
qed

lemma fill_chunk_padding_only:
  assumes "len mod 64 = 0"
  shows "fill_chunk input len (len div 64) = 0x80 # replicate 63 0"
proof (rule nth_equalityI)
  show "length (fill_chunk input len (len div 64)) = length (0x80 # replicate 63 (0 :: uchar))"
    by (simp add: fill_chunk_def)
next
  fix i
  assume "i < length (fill_chunk input len (len div 64))"
  then have i: "i < 64"
    by (simp add: fill_chunk_def)
  have pos: "len div 64 * 64 = len"
    using assms by (metis add.right_neutral div_mult_mod_eq)
  show "fill_chunk input len (len div 64) ! i = (0x80 # replicate 63 0) ! i"
    using i by (cases i) (simp_all add: fill_chunk_def chunk_byte_def pos)
qed

lemma chunk_trace_map:
  "chunk_trace input len chunk_idx =
     map (build_chunk input len) [chunk_idx..<len div 64 + 1]"
proof (induction input len chunk_idx rule: chunk_trace.induct)
  case (1 input len chunk_idx)
  show ?case
  proof (cases "chunk_idx \<le> len div 64")
    case True
    then have "[chunk_idx..<len div 64 + 1] = chunk_idx # [chunk_idx + 1..<len div 64 + 1]"
      by (simp add: upt_rec)
    with True 1 show ?thesis
      by (subst chunk_trace.simps) simp
  next
    case False
    then show ?thesis by (subst chunk_trace.simps) simp
  qed
qed

lemma last_chunk_trace:
  "last (chunk_trace input len 0) = build_chunk input len (len div 64)"
  by (simp add: chunk_trace_map last_map)

text \<open>
  Claim C3. For a message of \<open>len\<close> bytes the kernel processes exactly
  \<open>len div 64 + 1\<close> chunks of 64 bytes: the digest is the state after folding
  \<open>process_chunk\<close> over the chunks of the loop, and there are \<open>len div 64 + 1\<close> of them.
  When \<open>len\<close> is a multiple of 64 the last chunk holds no byte of the message: it is
  \<open>0x80\<close>, zeros and the eight bytes of the length field.
\<close>

theorem chunk_count:
  assumes "len < 2 ^ 31"
  shows "length (chunk_trace input len 0) = len div 64 + 1 \<and>
         sha1_kernel input len = output_bytes (fold process_chunk (chunk_trace input len 0) h_init) \<and>
         (len mod 64 = 0 \<longrightarrow>
            last (chunk_trace input len 0) =
              [0x80] @ replicate 55 0 @ [0, 0, 0, 0] @ word_bytes (word_of_nat (len * 8)))"
proof (intro conjI impI)
  show "length (chunk_trace input len 0) = len div 64 + 1"
    by (simp add: chunk_trace_length)
  show "sha1_kernel input len = output_bytes (fold process_chunk (chunk_trace input len 0) h_init)"
    by (simp add: sha1_kernel_def chunk_loop_trace)
next
  assume m: "len mod 64 = 0"
  have "build_chunk input len (len div 64) = put_length len (0x80 # replicate 63 0)"
    by (simp add: build_chunk_def fill_chunk_padding_only [OF m])
  also have "\<dots> = take 56 (0x80 # replicate 63 0) @ [0, 0, 0, 0] @ word_bytes (word_of_nat (len * 8))"
    by (rule put_length_closed) simp
  also have "take 56 (0x80 # replicate 63 (0 :: uchar)) = [0x80] @ replicate 55 0"
    by (simp add: take_Cons')
  finally show "last (chunk_trace input len 0) =
      [0x80] @ replicate 55 0 @ [0, 0, 0, 0] @ word_bytes (word_of_nat (len * 8))"
    by (simp add: last_chunk_trace)
qed

theorem chunk_count_witness:
  "(64 :: nat) < 2 ^ 31 \<and> (64 :: nat) mod 64 = 0 \<and>
   length (chunk_trace (replicate 64 0x61) 64 0) = 2 \<and>
   last (chunk_trace (replicate 64 0x61) 64 0) =
     [0x80] @ replicate 55 0 @ [0, 0, 0, 0, 0, 0, 2, 0]"
  using chunk_count [of 64 "replicate 64 0x61"]
  by (simp add: word_bytes_def)

section \<open>The kernel on the memory of a work item is the kernel as a function\<close>

lemma fold_fun_upd:
  "fold (\<lambda>i c. c(i := g i)) [0..<n] c = (\<lambda>j. if j < n then g j else c j)"
proof (induction n)
  case 0
  then show ?case by simp
next
  case (Suc n)
  have "fold (\<lambda>i c. c(i := g i)) [0..<Suc n] c =
      (fold (\<lambda>i c. c(i := g i)) [0..<n] c)(n := g n)"
    by simp
  also have "\<dots> = (\<lambda>j. if j < Suc n then g j else c j)"
    by (auto simp: Suc fun_eq_iff)
  finally show ?case .
qed

lemma map_fun_upd:
  "j < n \<Longrightarrow> map (c(j := v)) [0..<n] = (map c [0..<n])[j := v]"
  by (rule nth_equalityI) (simp_all add: nth_list_update)

lemma exec_fill_eq:
  "exec_fill input len chunk_idx chunk =
     (\<lambda>j. if j < 64
          then (if int chunk_idx * 64 + int j < len then input ! nat (int chunk_idx * 64 + int j)
                else if int chunk_idx * 64 + int j = len then 0x80 else 0)
          else chunk j)"
proof -
  have "exec_fill_step input len chunk_idx =
      (\<lambda>i c. c(i := (if int chunk_idx * 64 + int i < len
                       then input ! nat (int chunk_idx * 64 + int i)
                       else if int chunk_idx * 64 + int i = len then 0x80 else 0)))"
    by (intro ext) (simp add: exec_fill_step_def Let_def)
  then show ?thesis
    by (simp only: exec_fill_def fold_fun_upd)
qed

lemma exec_length_eq:
  "exec_length len chunk =
     chunk(63 := ucast (word_of_int (len * 8) :: uint),
           62 := ucast (drop_bit 8 (word_of_int (len * 8) :: uint)),
           61 := ucast (drop_bit 16 (word_of_int (len * 8) :: uint)),
           60 := ucast (drop_bit 24 (word_of_int (len * 8) :: uint)),
           59 := 0, 58 := 0, 57 := 0, 56 := 0)"
  by (simp add: exec_length_def upt8 exec_length_step_def ucast_low_byte drop_bit_32_uint)

lemma exec_words_eq:
  "exec_words chunk w =
     (\<lambda>j. if j < 16 then chunk_word (map chunk [0..<64]) j else w j)"
proof -
  have "exec_words chunk w =
      (\<lambda>j. if j < 16
           then push_bit 24 (ucast (chunk (4 * j))) OR push_bit 16 (ucast (chunk (4 * j + 1))) OR
                push_bit 8 (ucast (chunk (4 * j + 2))) OR ucast (chunk (4 * j + 3))
           else w j)"
    unfolding exec_words_def exec_word_step_def by (rule fold_fun_upd)
  also have "\<dots> = (\<lambda>j. if j < 16 then chunk_word (map chunk [0..<64]) j else w j)"
    by (intro ext) (simp add: chunk_word_def)
  finally show ?thesis .
qed

lemma exec_extend_list:
  "n \<le> 64 \<Longrightarrow>
     map (fold exec_extend_step [16..<16 + n] w) [0..<16 + n] =
       fold extend_step [16..<16 + n] (map w [0..<16])"
proof (induction n)
  case 0
  then show ?case by simp
next
  case (Suc n)
  let ?a = "fold exec_extend_step [16..<16 + n] w"
  let ?l = "fold extend_step [16..<16 + n] (map w [0..<16])"
  have IH: "map ?a [0..<16 + n] = ?l"
    using Suc by simp
  have upt: "[16..<16 + Suc n] = [16..<16 + n] @ [16 + n]"
    by (simp only: add_Suc_right upt_Suc_append [OF le_add1])
  have nths:
    "?l ! (16 + n - 3) = ?a (16 + n - 3)" "?l ! (16 + n - 8) = ?a (16 + n - 8)"
    "?l ! (16 + n - 14) = ?a (16 + n - 14)" "?l ! (16 + n - 16) = ?a (16 + n - 16)"
    unfolding IH [symmetric] by simp_all
  let ?v = "push_bit 1 (?a (16 + n - 3) XOR ?a (16 + n - 8) XOR ?a (16 + n - 14) XOR
                         ?a (16 + n - 16)) OR
            drop_bit 31 (?a (16 + n - 3) XOR ?a (16 + n - 8) XOR ?a (16 + n - 14) XOR
                         ?a (16 + n - 16))"
  have a: "fold exec_extend_step [16..<16 + Suc n] w = ?a(16 + n := ?v)"
    by (simp only: upt fold_append fold_simps comp_apply id_apply exec_extend_step_def Let_def)
  have l: "fold extend_step [16..<16 + Suc n] (map w [0..<16]) = ?l @ [?v]"
    by (simp only: upt fold_append fold_simps comp_apply id_apply extend_step_def Let_def nths)
  have "map (?a(16 + n := ?v)) [0..<16 + Suc n] = map (?a(16 + n := ?v)) [0..<16 + n] @ [?v]"
    by (simp only: add_Suc_right upt_Suc_append [OF le0] map_append list.map fun_upd_same)
  also have "map (?a(16 + n := ?v)) [0..<16 + n] = map ?a [0..<16 + n]"
    by (rule map_cong) simp_all
  finally show ?case
    by (simp only: a l IH)
qed

lemma exec_round_step_list:
  "i < 80 \<Longrightarrow> exec_round_step w i = round_step (map w [0..<80]) i"
  by (rule ext) (simp add: exec_round_step_def round_step_def)

lemma exec_chunk_process:
  "fst (exec_chunk input len chunk_idx (h, chunk, w)) =
     process_chunk
       (map (if int chunk_idx = c_div len 64
             then exec_length len (exec_fill input len chunk_idx chunk)
             else exec_fill input len chunk_idx chunk) [0..<64]) h"
proof -
  define c where "c = (if int chunk_idx = c_div len 64
            then exec_length len (exec_fill input len chunk_idx chunk)
            else exec_fill input len chunk_idx chunk)"
  define w2 where "w2 = exec_extend (exec_words c w)"
  have first: "map (exec_words c w) [0..<16] = map (chunk_word (map c [0..<64])) [0..<16]"
    by (rule map_cong) (simp_all add: exec_words_eq)
  have eighty: "16 + 64 = (80 :: nat)"
    by simp
  have sched: "map w2 [0..<80] = schedule (map c [0..<64])"
    by (simp only: w2_def exec_extend_def schedule_def first [symmetric]
          exec_extend_list [OF order_refl, unfolded eighty])
  have rounds: "fold (exec_round_step w2) [0..<80] h =
      fold (round_step (schedule (map c [0..<64]))) [0..<80] h"
    unfolding sched [symmetric] by (rule fold_cong) (simp_all add: exec_round_step_list)
  obtain h0 h1 h2 h3 h4 where h: "h = (h0, h1, h2, h3, h4)"
    by (cases h) auto
  have "fst (exec_chunk input len chunk_idx (h, chunk, w)) =
      (case fold (exec_round_step w2) [0..<80] h of
         (a, b, c, d, e) \<Rightarrow> (h0 + a, h1 + b, h2 + c, h3 + d, h4 + e))"
    by (simp add: exec_chunk_def Let_def h c_def [symmetric] w2_def [symmetric]
          split: prod.splits)
  also have "\<dots> = process_chunk (map c [0..<64]) h"
    by (simp only: rounds) (simp add: process_chunk_def h)
  finally show ?thesis
    by (simp only: c_def)
qed


lemma exec_chunk_memory:
  "fst (exec_chunk input len chunk_idx (h, chunk, w)) =
   fst (exec_chunk input len chunk_idx (h, chunk', w'))"
proof -
  have "map (if int chunk_idx = c_div len 64
             then exec_length len (exec_fill input len chunk_idx chunk)
             else exec_fill input len chunk_idx chunk) [0..<64] =
        map (if int chunk_idx = c_div len 64
             then exec_length len (exec_fill input len chunk_idx chunk')
             else exec_fill input len chunk_idx chunk') [0..<64]"
    by (rule map_cong) (simp_all add: exec_fill_eq exec_length_eq)
  then show ?thesis
    by (simp only: exec_chunk_process)
qed

lemma c_div_nat: "c_div (int n) 64 = int (n div 64)"
  by (simp add: c_div_def zdiv_int)

lemma exec_fill_list: "map (exec_fill input (int n) chunk_idx chunk) [0..<64] = fill_chunk input n chunk_idx"
proof -
  have "exec_fill input (int n) chunk_idx chunk j = chunk_byte input n chunk_idx j"
    if "j < 64" for j
  proof -
    have p: "int chunk_idx * 64 + int j = int (chunk_idx * 64 + j)"
      by simp
    have q: "nat (int chunk_idx * 64 + int j) = chunk_idx * 64 + j"
      by (simp only: p nat_int)
    show ?thesis
      using that by (simp add: exec_fill_eq chunk_byte_def Let_def q)
  qed
  then show ?thesis
    unfolding fill_chunk_def by (intro map_cong) simp_all
qed

lemma exec_length_list:
  "map (exec_length (int n) chunk) [0..<64] = put_length n (map chunk [0..<64])"
proof -
  have "(word_of_int (int n * 8) :: uint) = word_of_nat (n * 8)"
    by simp
  then show ?thesis
    by (simp add: exec_length_eq put_length_fold map_fun_upd)
qed

lemma exec_chunk_build_chunk:
  "fst (exec_chunk input (int n) chunk_idx (h, chunk, w)) =
     process_chunk (build_chunk input n chunk_idx) h"
proof -
  have "map (if int chunk_idx = c_div (int n) 64
             then exec_length (int n) (exec_fill input (int n) chunk_idx chunk)
             else exec_fill input (int n) chunk_idx chunk) [0..<64] =
        build_chunk input n chunk_idx"
    by (simp add: c_div_nat build_chunk_def exec_length_list exec_fill_list)
  then show ?thesis
    by (simp only: exec_chunk_process)
qed

lemma exec_loop_memory:
  "fst (exec_loop input len chunk_idx (h, chunk, w)) =
   fst (exec_loop input len chunk_idx (h, chunk', w'))"
proof (induction "nat (c_div len 64 + 1 - int chunk_idx)"
    arbitrary: chunk_idx h chunk w chunk' w')
  case 0
  then have "\<not> int chunk_idx \<le> c_div len 64"
    by simp
  then show ?case
    by (subst (1 2) exec_loop.simps) simp
next
  case (Suc k)
  then have run: "int chunk_idx \<le> c_div len 64"
    by simp
  obtain h1 c1 w1 where s1: "exec_chunk input len chunk_idx (h, chunk, w) = (h1, c1, w1)"
    by (cases "exec_chunk input len chunk_idx (h, chunk, w)") auto
  obtain h2 c2 w2 where s2: "exec_chunk input len chunk_idx (h, chunk', w') = (h2, c2, w2)"
    by (cases "exec_chunk input len chunk_idx (h, chunk', w')") auto
  have "h1 = h2"
    using exec_chunk_memory [of input len chunk_idx h chunk w chunk' w'] by (simp add: s1 s2)
  moreover have "k = nat (c_div len 64 + 1 - int (chunk_idx + 1))"
    using Suc(2) by simp
  ultimately have "fst (exec_loop input len (chunk_idx + 1) (h1, c1, w1)) =
      fst (exec_loop input len (chunk_idx + 1) (h2, c2, w2))"
    using Suc(1) by blast
  with run show ?case
    by (subst (1 2) exec_loop.simps) (simp add: s1 s2)
qed

lemma exec_loop_chunk_loop:
  "fst (exec_loop input (int n) chunk_idx (h, chunk, w)) = chunk_loop input n chunk_idx h"
proof (induction input n chunk_idx h arbitrary: chunk w rule: chunk_loop.induct)
  case (1 input n chunk_idx h)
  show ?case
  proof (cases "chunk_idx \<le> n div 64")
    case True
    obtain h1 c1 w1 where s1: "exec_chunk input (int n) chunk_idx (h, chunk, w) = (h1, c1, w1)"
      by (cases "exec_chunk input (int n) chunk_idx (h, chunk, w)") auto
    have h1: "h1 = process_chunk (build_chunk input n chunk_idx) h"
      using exec_chunk_build_chunk [of input n chunk_idx h chunk w] by (simp add: s1)
    have run: "int chunk_idx \<le> c_div (int n) 64"
      using True by (simp add: c_div_nat)
    have "fst (exec_loop input (int n) chunk_idx (h, chunk, w)) =
        fst (exec_loop input (int n) (chunk_idx + 1) (h1, c1, w1))"
      using run by (subst exec_loop.simps) (simp add: s1)
    also have "\<dots> = chunk_loop input n (chunk_idx + 1) h1"
      unfolding h1 by (rule "1.IH" [OF True])
    also have "\<dots> = chunk_loop input n chunk_idx h"
      using True by (subst (2) chunk_loop.simps) (simp add: h1)
    finally show ?thesis .
  next
    case False
    then have "\<not> int chunk_idx \<le> c_div (int n) 64"
      by (simp add: c_div_nat)
    with False show ?thesis
      by (subst exec_loop.simps, subst chunk_loop.simps) simp
  qed
qed

lemma exec_output_bytes:
  "map (fold (exec_output_step h) [0..<5] output) [0..<20] = output_bytes h"
proof -
  obtain h0 h1 h2 h3 h4 where h: "h = (h0, h1, h2, h3, h4)"
    by (cases h) auto
  show ?thesis
    by (simp add: h exec_output_step_def output_bytes_def word_bytes_def upt_rec)
qed

text \<open>
  On a length that is not negative the run on the memory of the device gives the digest
  of the kernel as a function, whatever the arrays and the output buffer held before.
\<close>

lemma sha1_kernel_exec_nat: "sha1_kernel_exec mem input (int n) = sha1_kernel input n"
proof -
  obtain h c w where s: "exec_loop input (int n) 0 (h_init, chunk_mem mem, w_mem mem) = (h, c, w)"
    by (cases "exec_loop input (int n) 0 (h_init, chunk_mem mem, w_mem mem)") auto
  have "h = chunk_loop input n 0 h_init"
    using exec_loop_chunk_loop [of input n 0 h_init "chunk_mem mem" "w_mem mem"]
    by (simp add: s)
  then show ?thesis
    by (simp only: sha1_kernel_exec_def s prod.case exec_output_bytes sha1_kernel_def)
qed

text \<open>
  For every length, negative ones too, the 20 bytes do not depend on what the arrays and
  the output buffer held before: each element is written before it is read.
\<close>

lemma sha1_kernel_exec_memory: "sha1_kernel_exec mem input len = sha1_kernel_exec mem' input len"
proof -
  obtain h c w where s: "exec_loop input len 0 (h_init, chunk_mem mem, w_mem mem) = (h, c, w)"
    by (cases "exec_loop input len 0 (h_init, chunk_mem mem, w_mem mem)") auto
  obtain h' c' w' where s': "exec_loop input len 0 (h_init, chunk_mem mem', w_mem mem') = (h', c', w')"
    by (cases "exec_loop input len 0 (h_init, chunk_mem mem', w_mem mem')") auto
  have "h = h'"
    using exec_loop_memory [of input len 0 h_init "chunk_mem mem" "w_mem mem"
        "chunk_mem mem'" "w_mem mem'"]
    by (simp add: s s')
  then show ?thesis
    by (simp only: sha1_kernel_exec_def s s' prod.case exec_output_bytes)
qed

lemma sha1_kernel_exec_numeral:
  "sha1_kernel_exec mem input (numeral k) = sha1_kernel input (numeral k)"
  using sha1_kernel_exec_nat [of mem input "numeral k"] by simp

lemma sha1_kernel_exec_one: "sha1_kernel_exec mem input 1 = sha1_kernel input 1"
  using sha1_kernel_exec_nat [of mem input 1] by simp


section \<open>Device selection\<close>

lemma sorted_devices_sorted: "sorted (map device_key (sorted_devices devices))"
  by (simp add: sorted_devices_def)

lemma sorted_devices_set: "set (sorted_devices devices) = set devices"
  by (simp add: sorted_devices_def)

lemma sorted_devices_length: "length (sorted_devices devices) = length devices"
  by (simp add: sorted_devices_def)

lemma select_best_device_min:
  assumes "select_best_device devices = Inr d"
  shows "d \<in> set devices \<and> (\<forall>d' \<in> set devices. device_key d \<le> device_key d')"
proof -
  from assms obtain rest where s: "sorted_devices devices = d # rest"
    by (auto simp: select_best_device_def split: list.splits)
  have "sorted (map device_key (d # rest))"
    using sorted_devices_sorted [of devices] by (simp add: s)
  then have "\<forall>d' \<in> set (d # rest). device_key d \<le> device_key d'"
    by auto
  moreover have "set (d # rest) = set devices"
    using sorted_devices_set [of devices] by (simp add: s)
  ultimately show ?thesis by auto
qed

lemma select_best_device_total:
  assumes "devices \<noteq> []"
  shows "\<exists>d. select_best_device devices = Inr d"
proof -
  have "sorted_devices devices \<noteq> []"
    using assms sorted_devices_length [of devices] by auto
  then show ?thesis
    by (auto simp: select_best_device_def split: list.splits)
qed

lemma device_key_mem:
  "device_key d \<le> device_key d' \<Longrightarrow> global_mem_size d' \<le> global_mem_size d"
  by (auto simp: device_key_def)

lemma select_best_device_max:
  assumes "devices \<noteq> []"
  shows "\<exists>d. select_best_device devices = Inr d \<and> d \<in> set devices \<and>
             (\<forall>d' \<in> set devices. global_mem_size d' \<le> global_mem_size d)"
  using select_best_device_total [OF assms] select_best_device_min device_key_mem
  by blast

text \<open>
  Claim C6. The catalog is the device list of the first platform, and it is not empty.
  An index given on the command line that is in range selects the device at that index,
  whatever the memory sizes are; an index out of range is the error
  \<open>InvalidDeviceError\<close>. Without an index the selected device is a device of the
  catalog of maximal memory size, the same for the same catalog; for memory sizes
  1, 2 and 4 it is the device of size 4.
\<close>

theorem device_selection:
  assumes "devices \<noteq> []"
  shows "(0 \<le> i \<and> i < int (length devices) \<longrightarrow>
            resolve_device (devices # others) (Some i) = Inr (devices ! nat i)) \<and>
         (i < 0 \<or> int (length devices) \<le> i \<longrightarrow>
            resolve_device (devices # others) (Some i) = Inl InvalidDeviceError) \<and>
         (\<exists>d. resolve_device (devices # others) None = Inr d \<and> d \<in> set devices \<and>
              (\<forall>d' \<in> set devices. global_mem_size d' \<le> global_mem_size d)) \<and>
         (map global_mem_size devices = [1, 2, 4] \<longrightarrow>
            resolve_device (devices # others) None = Inr (devices ! 2))"
proof (intro conjI impI)
  assume "0 \<le> i \<and> i < int (length devices)"
  then show "resolve_device (devices # others) (Some i) = Inr (devices ! nat i)"
    using assms by (simp add: resolve_device_def)
next
  assume "i < 0 \<or> int (length devices) \<le> i"
  then show "resolve_device (devices # others) (Some i) = Inl InvalidDeviceError"
    using assms by (auto simp: resolve_device_def)
next
  show "\<exists>d. resolve_device (devices # others) None = Inr d \<and> d \<in> set devices \<and>
              (\<forall>d' \<in> set devices. global_mem_size d' \<le> global_mem_size d)"
    using assms select_best_device_max [OF assms] by (simp add: resolve_device_def)
next
  assume m: "map global_mem_size devices = [1, 2, 4]"
  then obtain a b c where abc: "devices = [a, b, c]"
    by auto
  with m have mem: "global_mem_size a = 1" "global_mem_size b = 2" "global_mem_size c = 4"
    by auto
  from select_best_device_max [OF assms] obtain d where
    d: "select_best_device devices = Inr d" "d \<in> set devices"
       "\<forall>d' \<in> set devices. global_mem_size d' \<le> global_mem_size d"
    by blast
  from d(3) have "global_mem_size c \<le> global_mem_size d"
    by (simp add: abc)
  with d(2) mem have "d = c"
    by (auto simp: abc)
  with d(1) show "resolve_device (devices # others) None = Inr (devices ! 2)"
    using assms by (simp add: resolve_device_def abc)
qed

lemma known_after_unknown:
  assumes "global_mem_size u = global_mem_size v" "\<not> known_vendor u" "known_vendor v"
  shows "device_key u < device_key v"
  using assms by (auto simp: device_key_def known_vendor_def)

lemma selected_vendor:
  assumes "select_best_device devices = Inr d \<and> u \<in> set devices \<and>
       global_mem_size u = global_mem_size d \<and> \<not> known_vendor u"
  shows "\<not> known_vendor d"
proof
  assume "known_vendor d"
  with assms have "device_key u < device_key d"
    by (intro known_after_unknown) simp_all
  moreover from assms have "device_key d \<le> device_key u"
    using select_best_device_min [of devices d] by blast
  ultimately show False by simp
qed

text \<open>
  Claim C10. The sorted list holds the devices of the catalog, and in it, among devices
  of equal memory size, every device whose vendor in lower case starts with nvidia, amd
  or intel stands after every device whose vendor starts with none of them. A catalog
  that is not empty always has a selected device, one of its devices of maximal memory
  size. So at a tie for the maximal memory size a device of another vendor wins: when
  some device of maximal memory has a vendor that is none of the three, the selected
  device is a device of the catalog with that memory size and a vendor that is none of
  the three.
\<close>

theorem vendor_tie_break:
  "length (sorted_devices devices) = length devices \<and>
   set (sorted_devices devices) = set devices \<and>
   (\<forall>i j. i < length devices \<and> j < length devices \<and>
       global_mem_size (sorted_devices devices ! i) = global_mem_size (sorted_devices devices ! j) \<and>
       \<not> known_vendor (sorted_devices devices ! i) \<and> known_vendor (sorted_devices devices ! j)
       \<longrightarrow> i < j) \<and>
   (\<forall>d u. select_best_device devices = Inr d \<and> u \<in> set devices \<and>
       global_mem_size u = global_mem_size d \<and> \<not> known_vendor u
       \<longrightarrow> \<not> known_vendor d) \<and>
   (devices \<noteq> [] \<longrightarrow>
      (\<exists>d. select_best_device devices = Inr d \<and> d \<in> set devices \<and>
           (\<forall>d' \<in> set devices. global_mem_size d' \<le> global_mem_size d))) \<and>
   (\<forall>u. u \<in> set devices \<and> (\<forall>d' \<in> set devices. global_mem_size d' \<le> global_mem_size u) \<and>
       \<not> known_vendor u
       \<longrightarrow> (\<exists>d. select_best_device devices = Inr d \<and> d \<in> set devices \<and>
              global_mem_size d = global_mem_size u \<and> \<not> known_vendor d))"
proof (intro conjI allI impI)
  show "length (sorted_devices devices) = length devices"
    by (rule sorted_devices_length)
  show "set (sorted_devices devices) = set devices"
    by (rule sorted_devices_set)
next
  fix i j
  assume a: "i < length devices \<and> j < length devices \<and>
       global_mem_size (sorted_devices devices ! i) = global_mem_size (sorted_devices devices ! j) \<and>
       \<not> known_vendor (sorted_devices devices ! i) \<and> known_vendor (sorted_devices devices ! j)"
  let ?ds = "sorted_devices devices"
  from a have lt: "device_key (?ds ! i) < device_key (?ds ! j)"
    by (intro known_after_unknown) simp_all
  show "i < j"
  proof (rule ccontr)
    assume "\<not> i < j"
    then have "j \<le> i" by simp
    with a have "map device_key ?ds ! j \<le> map device_key ?ds ! i"
      by (intro sorted_nth_mono [OF sorted_devices_sorted]) (simp_all add: sorted_devices_length)
    with a have "device_key (?ds ! j) \<le> device_key (?ds ! i)"
      by (simp add: sorted_devices_length)
    with lt show False by simp
  qed
next
  fix d u
  assume "select_best_device devices = Inr d \<and> u \<in> set devices \<and>
       global_mem_size u = global_mem_size d \<and> \<not> known_vendor u"
  then show "\<not> known_vendor d"
    by (rule selected_vendor)
next
  assume "devices \<noteq> []"
  then show "\<exists>d. select_best_device devices = Inr d \<and> d \<in> set devices \<and>
           (\<forall>d' \<in> set devices. global_mem_size d' \<le> global_mem_size d)"
    by (rule select_best_device_max)
next
  fix u
  assume u: "u \<in> set devices \<and> (\<forall>d' \<in> set devices. global_mem_size d' \<le> global_mem_size u) \<and>
       \<not> known_vendor u"
  then have "devices \<noteq> []"
    by auto
  from select_best_device_max [OF this] obtain d where
    d: "select_best_device devices = Inr d" "d \<in> set devices"
       "\<forall>d' \<in> set devices. global_mem_size d' \<le> global_mem_size d"
    by blast
  from u d have m: "global_mem_size u = global_mem_size d"
    by (auto intro: antisym)
  with u d(1) have "\<not> known_vendor d"
    by (intro selected_vendor [of devices d u]) simp
  with d m show "\<exists>d. select_best_device devices = Inr d \<and> d \<in> set devices \<and>
              global_mem_size d = global_mem_size u \<and> \<not> known_vendor d"
    by auto
qed

theorem device_selection_witness:
  "[\<lparr>name = ''A'', vendor = ''NVIDIA'', global_mem_size = 1, type_str = ''GPU''\<rparr>,
    \<lparr>name = ''B'', vendor = ''AMD'', global_mem_size = 2, type_str = ''GPU''\<rparr>,
    \<lparr>name = ''C'', vendor = ''Intel'', global_mem_size = 4, type_str = ''CPU''\<rparr>] \<noteq> [] \<and>
   resolve_device
     [[\<lparr>name = ''A'', vendor = ''NVIDIA'', global_mem_size = 1, type_str = ''GPU''\<rparr>,
       \<lparr>name = ''B'', vendor = ''AMD'', global_mem_size = 2, type_str = ''GPU''\<rparr>,
       \<lparr>name = ''C'', vendor = ''Intel'', global_mem_size = 4, type_str = ''CPU''\<rparr>]] (Some 0) =
     Inr \<lparr>name = ''A'', vendor = ''NVIDIA'', global_mem_size = 1, type_str = ''GPU''\<rparr> \<and>
   resolve_device
     [[\<lparr>name = ''A'', vendor = ''NVIDIA'', global_mem_size = 1, type_str = ''GPU''\<rparr>,
       \<lparr>name = ''B'', vendor = ''AMD'', global_mem_size = 2, type_str = ''GPU''\<rparr>,
       \<lparr>name = ''C'', vendor = ''Intel'', global_mem_size = 4, type_str = ''CPU''\<rparr>]] (Some 3) =
     Inl InvalidDeviceError \<and>
   resolve_device
     [[\<lparr>name = ''A'', vendor = ''NVIDIA'', global_mem_size = 1, type_str = ''GPU''\<rparr>,
       \<lparr>name = ''B'', vendor = ''AMD'', global_mem_size = 2, type_str = ''GPU''\<rparr>,
       \<lparr>name = ''C'', vendor = ''Intel'', global_mem_size = 4, type_str = ''CPU''\<rparr>]] None =
     Inr \<lparr>name = ''C'', vendor = ''Intel'', global_mem_size = 4, type_str = ''CPU''\<rparr>"
  using
    device_selection [of "[\<lparr>name = ''A'', vendor = ''NVIDIA'', global_mem_size = 1, type_str = ''GPU''\<rparr>,
       \<lparr>name = ''B'', vendor = ''AMD'', global_mem_size = 2, type_str = ''GPU''\<rparr>,
       \<lparr>name = ''C'', vendor = ''Intel'', global_mem_size = 4, type_str = ''CPU''\<rparr>]" 0 "[]"]
    device_selection [of "[\<lparr>name = ''A'', vendor = ''NVIDIA'', global_mem_size = 1, type_str = ''GPU''\<rparr>,
       \<lparr>name = ''B'', vendor = ''AMD'', global_mem_size = 2, type_str = ''GPU''\<rparr>,
       \<lparr>name = ''C'', vendor = ''Intel'', global_mem_size = 4, type_str = ''CPU''\<rparr>]" 3 "[]"]
  by simp

theorem vendor_tie_break_witness:
  "known_vendor \<lparr>name = ''A'', vendor = ''NVIDIA'', global_mem_size = 4, type_str = ''GPU''\<rparr> \<and>
   \<not> known_vendor \<lparr>name = ''B'', vendor = ''Apple'', global_mem_size = 4, type_str = ''GPU''\<rparr> \<and>
   sorted_devices
     [\<lparr>name = ''A'', vendor = ''NVIDIA'', global_mem_size = 4, type_str = ''GPU''\<rparr>,
      \<lparr>name = ''B'', vendor = ''Apple'', global_mem_size = 4, type_str = ''GPU''\<rparr>] =
     [\<lparr>name = ''B'', vendor = ''Apple'', global_mem_size = 4, type_str = ''GPU''\<rparr>,
      \<lparr>name = ''A'', vendor = ''NVIDIA'', global_mem_size = 4, type_str = ''GPU''\<rparr>] \<and>
   select_best_device
     [\<lparr>name = ''A'', vendor = ''NVIDIA'', global_mem_size = 4, type_str = ''GPU''\<rparr>,
      \<lparr>name = ''B'', vendor = ''Apple'', global_mem_size = 4, type_str = ''GPU''\<rparr>] =
     Inr \<lparr>name = ''B'', vendor = ''Apple'', global_mem_size = 4, type_str = ''GPU''\<rparr>"
proof -
  let ?A = "\<lparr>name = ''A'', vendor = ''NVIDIA'', global_mem_size = 4, type_str = ''GPU''\<rparr>"
  let ?B = "\<lparr>name = ''B'', vendor = ''Apple'', global_mem_size = 4, type_str = ''GPU''\<rparr>"
  have lA: "lower ''NVIDIA'' = ''nvidia''" and lB: "lower ''Apple'' = ''apple''"
    by (simp_all add: lower_def lower_char_def)
  have kA: "known_vendor ?A"
    by (simp add: known_vendor_def lA startswith_def)
  have kB: "\<not> known_vendor ?B"
    by (simp add: known_vendor_def lB startswith_def)
  have keyA: "device_key ?A = (- 4, True, False, False)"
    by (simp add: device_key_def lA startswith_def)
  have keyB: "device_key ?B = (- 4, False, False, False)"
    by (simp add: device_key_def lB startswith_def)
  have s: "sorted_devices [?A, ?B] = [?B, ?A]"
    unfolding sorted_devices_def by (simp add: keyA keyB)
  have "?B \<in> set [?A, ?B] \<and> (\<forall>d' \<in> set [?A, ?B]. global_mem_size d' \<le> global_mem_size ?B) \<and>
      \<not> known_vendor ?B"
    using kB by simp
  then have "\<exists>d. select_best_device [?A, ?B] = Inr d \<and> d \<in> set [?A, ?B] \<and>
      global_mem_size d = global_mem_size ?B \<and> \<not> known_vendor d"
    using vendor_tie_break [of "[?A, ?B]"] by blast
  then obtain d where d: "select_best_device [?A, ?B] = Inr d" "d \<in> set [?A, ?B]"
      "\<not> known_vendor d"
    by blast
  from d(2,3) kA have "d = ?B"
    by auto
  with d(1) kA kB s show ?thesis
    by simp
qed

section \<open>The output path\<close>

lemma unique_loop_Inr:
  assumes "unique_loop path_exists base_name directory idxs = Inr p"
  shows "\<not> path_exists p \<and>
         (\<exists>k < length idxs. p = candidate base_name directory (idxs ! k) \<and>
            (\<forall>j < k. path_exists (candidate base_name directory (idxs ! j))))"
  using assms
proof (induction idxs)
  case Nil
  then show ?case by simp
next
  case (Cons i rest)
  show ?case
  proof (cases "path_exists (candidate base_name directory i)")
    case False
    with Cons.prems have "p = candidate base_name directory i"
      by simp
    with False show ?thesis
      by (intro conjI exI [of _ 0]) simp_all
  next
    case True
    with Cons.prems have "unique_loop path_exists base_name directory rest = Inr p"
      by simp
    from Cons.IH [OF this] obtain k where
      k: "\<not> path_exists p" "k < length rest" "p = candidate base_name directory (rest ! k)"
         "\<forall>j < k. path_exists (candidate base_name directory (rest ! j))"
      by blast
    have "\<forall>j < Suc k. path_exists (candidate base_name directory ((i # rest) ! j))"
      using True k(4) by (auto simp: less_Suc_eq_0_disj)
    with k show ?thesis
      by (intro conjI exI [of _ "Suc k"]) simp_all
  qed
qed

lemma unique_loop_Inl:
  "unique_loop path_exists base_name directory idxs = Inl e \<longleftrightarrow>
     e = OutputNameExhaustedError \<and>
     (\<forall>i \<in> set idxs. path_exists (candidate base_name directory i))"
  by (induction idxs) (auto simp: Let_def split: if_splits)

lemma str_nat_length:
  "n < 1000 \<Longrightarrow> length (str_nat n) = (if n < 10 then 1 else if n < 100 then 2 else 3)"
  by (subst str_nat.simps, subst str_nat.simps, subst str_nat.simps) auto

lemma format_03d_length: "i < 1000 \<Longrightarrow> length (format_03d i) = 3"
  by (auto simp: format_03d_def Let_def str_nat_length)

text \<open>
  Claim C8. When the default output path \<open>output.csv\<close> exists, \<open>main\<close> takes the
  result of \<open>generate_unique_filename\<close>. A path that it returns does not exist; it is
  the base name with \<open>_\<close>, a number below 1000 written with three digits and the
  extension, and every candidate of a smaller number exists. It fails, with
  \<open>OutputNameExhaustedError\<close>, exactly when all 1000 candidates exist.
\<close>

theorem unique_output_name:
  "(path_exists (path_join cwd ''output.csv'') \<longrightarrow>
      output_path path_exists cwd None = generate_unique_filename path_exists ''output'' cwd) \<and>
   (\<forall>p. generate_unique_filename path_exists base_name directory = Inr p \<longrightarrow>
      \<not> path_exists p \<and>
      (\<exists>i < 1000. p = path_join directory (base_name @ ''_'' @ format_03d i @ ''.txt'') \<and>
         length (format_03d i) = 3 \<and>
         (\<forall>j < i. path_exists (candidate base_name directory j)))) \<and>
   ((\<forall>i < 1000. path_exists (candidate base_name directory i)) \<longleftrightarrow>
      generate_unique_filename path_exists base_name directory = Inl OutputNameExhaustedError)"
proof (intro conjI allI impI)
  assume "path_exists (path_join cwd ''output.csv'')"
  then show "output_path path_exists cwd None = generate_unique_filename path_exists ''output'' cwd"
    by (simp add: output_path_def)
next
  fix p
  assume "generate_unique_filename path_exists base_name directory = Inr p"
  then have "unique_loop path_exists base_name directory [0..<1000] = Inr p"
    by (simp add: generate_unique_filename_def)
  from unique_loop_Inr [OF this] obtain k where
    k: "\<not> path_exists p" "k < 1000" "p = candidate base_name directory ([0..<1000] ! k)"
       "\<forall>j < k. path_exists (candidate base_name directory ([0..<1000] ! j))"
    by auto
  from k(2) have "[0..<1000] ! k = k" by simp
  moreover from k(2) have "\<forall>j < k. [0..<1000] ! j = j" by simp
  ultimately have "p = candidate base_name directory k"
    "\<forall>j < k. path_exists (candidate base_name directory j)"
    using k(3,4) by simp_all
  with k(1,2) show "\<not> path_exists p" 
    "\<exists>i < 1000. p = path_join directory (base_name @ ''_'' @ format_03d i @ ''.txt'') \<and>
         length (format_03d i) = 3 \<and>
         (\<forall>j < i. path_exists (candidate base_name directory j))"
    by (auto simp: candidate_def format_03d_length)
next
  show "(\<forall>i < 1000. path_exists (candidate base_name directory i)) \<longleftrightarrow>
      generate_unique_filename path_exists base_name directory = Inl OutputNameExhaustedError"
    by (auto simp: generate_unique_filename_def unique_loop_Inl)
qed

theorem unique_output_name_witness:
  "(\<lambda>p. p \<in> {''/tmp/output.csv'', ''/tmp/output_000.txt''}) (path_join ''/tmp'' ''output.csv'') \<and>
   output_path (\<lambda>p. p \<in> {''/tmp/output.csv'', ''/tmp/output_000.txt''}) ''/tmp'' None =
     Inr ''/tmp/output_001.txt'' \<and>
   \<not> (\<lambda>p. p \<in> {''/tmp/output.csv'', ''/tmp/output_000.txt''}) ''/tmp/output_001.txt''"
proof -
  let ?ex = "\<lambda>p. p \<in> {''/tmp/output.csv'', ''/tmp/output_000.txt''}"
  have j: "path_join ''/tmp'' ''output.csv'' = ''/tmp/output.csv''"
    by (simp add: path_join_def startswith_def)
  have c0: "candidate ''output'' ''/tmp'' 0 = ''/tmp/output_000.txt''"
    by (simp add: candidate_def path_join_def startswith_def format_03d_def str_nat.simps
          numeral_2_eq_2)
  have c1: "candidate ''output'' ''/tmp'' (Suc 0) = ''/tmp/output_001.txt''"
    by (simp add: candidate_def path_join_def startswith_def format_03d_def str_nat.simps
          numeral_2_eq_2)
  have e0: "?ex ''/tmp/output_000.txt'' = True" and e1: "?ex ''/tmp/output_001.txt'' = False"
    by simp_all
  have u0: "[0..<1000::nat] = 0 # [Suc 0..<1000]"
    by (rule upt_conv_Cons) simp
  have u1: "[Suc 0..<1000::nat] = Suc 0 # [Suc (Suc 0)..<1000]"
    by (rule upt_conv_Cons) simp
  have g: "generate_unique_filename ?ex ''output'' ''/tmp'' = Inr ''/tmp/output_001.txt''"
    by (simp only: generate_unique_filename_def u0 u1 unique_loop.simps Let_def c0 c1 e0 e1
          simp_thms if_True if_False)
  have "output_path ?ex ''/tmp'' None = generate_unique_filename ?ex ''output'' ''/tmp''"
    using unique_output_name [of ?ex "''/tmp''", THEN conjunct1] j by simp
  with g j show ?thesis by simp
qed

section \<open>The batch\<close>

lemma hashing_loop_append:
  "hashing_loop context env (before @ rest) hashes =
     (case hashing_loop context env before hashes of
        Inl e \<Rightarrow> Inl e
      | Inr hs \<Rightarrow> hashing_loop context env rest hs)"
  by (induction before arbitrary: hashes) (auto split: sum.splits)

lemma hashing_loop_ok:
  assumes "\<forall>p \<in> set files. \<exists>r. hash_file context env p = Inr r"
  shows "hashing_loop context env files hashes =
           Inr (hashes @ map (\<lambda>p. projr (hash_file context env p)) files)"
  using assms
proof (induction files arbitrary: hashes)
  case Nil
  then show ?case by simp
next
  case (Cons f files)
  then obtain r where r: "hash_file context env f = Inr r"
    by auto
  with Cons show ?case by simp
qed

lemma hashing_loop_results:
  assumes "hashing_loop context env files hashes = Inr result"
  shows "result = hashes @ map (\<lambda>p. projr (hash_file context env p)) files \<and>
         (\<forall>p \<in> set files. \<exists>r. hash_file context env p = Inr r)"
  using assms
proof (induction files arbitrary: hashes)
  case Nil
  then show ?case by simp
next
  case (Cons f files)
  from Cons.prems obtain r where r: "hash_file context env f = Inr r"
    by (auto split: sum.splits)
  with Cons.prems have "hashing_loop context env files (hashes @ [r]) = Inr result"
    by simp
  from Cons.IH [OF this] r show ?case by simp
qed

lemma hash_file_Inr:
  assumes "hash_file context env p = Inr r"
  shows "\<exists>data len. file_content env p = Some data \<and>
           np_int32 (int32_wraps env) (length data) = Inr len \<and>
           r = (p, hash_hex (sha1_kernel_exec (device_memory env context p) data len))"
  using assms by (auto simp: hash_file_def split: option.splits if_splits sum.splits)

lemma np_int32_same:
  "np_int32 wraps n = Inr len \<Longrightarrow> np_int32 wraps' n = Inr len' \<Longrightarrow> len = len'"
  by (auto simp: np_int32_def split: if_splits)

lemma np_int32_small: "n < 2 ^ 31 \<Longrightarrow> np_int32 wraps n = Inr (int n)"
  by (simp add: np_int32_def)

text \<open>
  Claim C5, as the code has it. The loop of \<open>perform_hashing\<close> has no handler of its
  own: when the files before \<open>f\<close> are hashed and hashing \<open>f\<close> fails, the call fails
  with that error, the digests computed so far are lost, the files after \<open>f\<close> are not
  read, and the handler of \<open>main\<close> reports the error and writes no report.
\<close>

theorem batch_aborts:
  assumes "\<forall>p \<in> set before. \<exists>r. hash_file context env p = Inr r"
    and "hash_file context env f = Inl e"
  shows "perform_hashing context env (before @ f # rest) = Inl e \<and>
         run_batch context env (before @ f # rest) = Aborted e"
proof -
  have "hashing_loop context env (before @ f # rest) [] = Inl e"
    using assms by (simp add: hashing_loop_append hashing_loop_ok)
  then show ?thesis
    by (simp add: perform_hashing_def run_batch_def)
qed

text \<open>
  Claim C9. A digest in the result of a run depends on the bytes of its file and on
  nothing else. The two runs may have different devices, and the arrays of the work item
  and the output buffer may hold anything before the kernel starts (\<open>device_memory\<close>);
  the batches and the order of the files may differ, and so may the way the length is
  stored (\<open>int32_wraps\<close>). Whenever two entries belong to files with the same bytes,
  their digests are the same; and for a file shorter than \<open>2 ^ 31\<close> bytes the digest is
  that of the kernel as a function of the bytes.
\<close>

theorem digest_pure:
  assumes "perform_hashing context1 env1 files1 = Inr result1"
    and "perform_hashing context2 env2 files2 = Inr result2"
    and "(p1, h1) \<in> set result1" and "(p2, h2) \<in> set result2"
    and "file_content env1 p1 = file_content env2 p2"
  shows "h1 = h2 \<and>
         (\<exists>data. file_content env1 p1 = Some data \<and>
            (length data < 2 ^ 31 \<longrightarrow> h1 = hash_hex (sha1_kernel data (length data))))"
proof -
  have content: "\<exists>data len. file_content env p = Some data \<and>
        np_int32 (int32_wraps env) (length data) = Inr len \<and>
        h = hash_hex (sha1_kernel_exec (device_memory env dev p) data len)"
    if run: "perform_hashing dev env files = Inr result" and mem: "(p, h) \<in> set result"
    for dev env files result p h
  proof -
    from run have res: "result = map (\<lambda>p. projr (hash_file dev env p)) files"
      and ok: "\<forall>p \<in> set files. \<exists>r. hash_file dev env p = Inr r"
      using hashing_loop_results [of dev env files "[]" result]
      by (simp_all add: perform_hashing_def)
    from mem res obtain q where q: "q \<in> set files" "(p, h) = projr (hash_file dev env q)"
      by auto
    from ok q(1) obtain r where r: "hash_file dev env q = Inr r"
      by blast
    from hash_file_Inr [OF r] q(2) r show ?thesis
      by auto
  qed
  from content [OF assms(1,3)] obtain data1 len1 where
    one: "file_content env1 p1 = Some data1"
         "np_int32 (int32_wraps env1) (length data1) = Inr len1"
         "h1 = hash_hex (sha1_kernel_exec (device_memory env1 context1 p1) data1 len1)"
    by blast
  from content [OF assms(2,4)] obtain data2 len2 where
    two: "file_content env2 p2 = Some data2"
         "np_int32 (int32_wraps env2) (length data2) = Inr len2"
         "h2 = hash_hex (sha1_kernel_exec (device_memory env2 context2 p2) data2 len2)"
    by blast
  from one(1) two(1) assms(5) have data: "data2 = data1"
    by simp
  with one(2) two(2) have len: "len2 = len1"
    by (auto dest: np_int32_same)
  have "h1 = h2"
    unfolding one(3) two(3) data len
    by (simp only: sha1_kernel_exec_memory [of "device_memory env1 context1 p1" data1 len1
          "device_memory env2 context2 p2"])
  moreover have "h1 = hash_hex (sha1_kernel data1 (length data1))" if "length data1 < 2 ^ 31"
    using one(2,3) np_int32_small [OF that, of "int32_wraps env1"]
    by (auto simp: sha1_kernel_exec_nat)
  ultimately show ?thesis
    using one(1) by blast
qed

text \<open>
  Claim C5 as the specification states it fails: in a batch of five files where only the
  launch for the third file fails, the fourth file can be hashed, yet the batch ends in
  the handler with the error and no row is written for any file.
\<close>

theorem batch_isolation_counterexample:
  "hash_file \<lparr>name = ''G'', vendor = ''AMD'', global_mem_size = 4, type_str = ''GPU''\<rparr>
     \<lparr>file_content = (\<lambda>p. Some [0x61]), buffers_ok = (\<lambda>d p. True), int32_wraps = False,
       launch_ok = (\<lambda>d p. p \<noteq> ''c''),
       device_memory = (\<lambda>d p. \<lparr>chunk_mem = (\<lambda>i. 0), w_mem = (\<lambda>i. 0), output_mem = (\<lambda>i. 0)\<rparr>)\<rparr> ''d'' =
     Inr (''d'', hash_hex (sha1_kernel [0x61] 1)) \<and>
   run_batch \<lparr>name = ''G'', vendor = ''AMD'', global_mem_size = 4, type_str = ''GPU''\<rparr>
     \<lparr>file_content = (\<lambda>p. Some [0x61]), buffers_ok = (\<lambda>d p. True), int32_wraps = False,
       launch_ok = (\<lambda>d p. p \<noteq> ''c''),
       device_memory = (\<lambda>d p. \<lparr>chunk_mem = (\<lambda>i. 0), w_mem = (\<lambda>i. 0), output_mem = (\<lambda>i. 0)\<rparr>)\<rparr>
     [''a'', ''b'', ''c'', ''d'', ''e''] =
     Aborted (HashExecutionError ''c'')"
  by (simp add: run_batch_def perform_hashing_def hash_file_def np_int32_def
        sha1_kernel_exec_one)

theorem batch_aborts_witness:
  "hash_file \<lparr>name = ''G'', vendor = ''AMD'', global_mem_size = 4, type_str = ''GPU''\<rparr>
     \<lparr>file_content = (\<lambda>p. Some [0x61]), buffers_ok = (\<lambda>d p. True), int32_wraps = False,
       launch_ok = (\<lambda>d p. p \<noteq> ''c''),
       device_memory = (\<lambda>d p. \<lparr>chunk_mem = (\<lambda>i. 0), w_mem = (\<lambda>i. 0), output_mem = (\<lambda>i. 0)\<rparr>)\<rparr> ''a'' =
     Inr (''a'', hash_hex (sha1_kernel [0x61] 1)) \<and>
   hash_file \<lparr>name = ''G'', vendor = ''AMD'', global_mem_size = 4, type_str = ''GPU''\<rparr>
     \<lparr>file_content = (\<lambda>p. Some [0x61]), buffers_ok = (\<lambda>d p. True), int32_wraps = False,
       launch_ok = (\<lambda>d p. p \<noteq> ''c''),
       device_memory = (\<lambda>d p. \<lparr>chunk_mem = (\<lambda>i. 0), w_mem = (\<lambda>i. 0), output_mem = (\<lambda>i. 0)\<rparr>)\<rparr> ''c'' =
     Inl (HashExecutionError ''c'') \<and>
   perform_hashing \<lparr>name = ''G'', vendor = ''AMD'', global_mem_size = 4, type_str = ''GPU''\<rparr>
     \<lparr>file_content = (\<lambda>p. Some [0x61]), buffers_ok = (\<lambda>d p. True), int32_wraps = False,
       launch_ok = (\<lambda>d p. p \<noteq> ''c''),
       device_memory = (\<lambda>d p. \<lparr>chunk_mem = (\<lambda>i. 0), w_mem = (\<lambda>i. 0), output_mem = (\<lambda>i. 0)\<rparr>)\<rparr>
     ([''a''] @ ''c'' # [''d'']) =
     Inl (HashExecutionError ''c'')"
  using batch_aborts [of "[''a'']"
      "\<lparr>name = ''G'', vendor = ''AMD'', global_mem_size = 4, type_str = ''GPU''\<rparr>"
      "\<lparr>file_content = (\<lambda>p. Some [0x61]), buffers_ok = (\<lambda>d p. True), int32_wraps = False,
       launch_ok = (\<lambda>d p. p \<noteq> ''c''),
       device_memory = (\<lambda>d p. \<lparr>chunk_mem = (\<lambda>i. 0), w_mem = (\<lambda>i. 0), output_mem = (\<lambda>i. 0)\<rparr>)\<rparr>"
      "''c''" "HashExecutionError ''c''" "[''d'']"]
  by (simp add: hash_file_def np_int32_def sha1_kernel_exec_one)

theorem digest_pure_witness:
  "perform_hashing \<lparr>name = ''G'', vendor = ''AMD'', global_mem_size = 4, type_str = ''GPU''\<rparr>
     \<lparr>file_content = [''x'' \<mapsto> [1, 2]], buffers_ok = (\<lambda>d p. True), int32_wraps = False,
       launch_ok = (\<lambda>d p. True),
       device_memory = (\<lambda>d p. \<lparr>chunk_mem = (\<lambda>i. 0), w_mem = (\<lambda>i. 0), output_mem = (\<lambda>i. 0)\<rparr>)\<rparr> [''x''] =
     Inr [(''x'', hash_hex (sha1_kernel [1, 2] 2))] \<and>
   perform_hashing \<lparr>name = ''C'', vendor = ''Intel'', global_mem_size = 2, type_str = ''CPU''\<rparr>
     \<lparr>file_content = [''y'' \<mapsto> [1, 2], ''z'' \<mapsto> [3]], buffers_ok = (\<lambda>d p. True),
       int32_wraps = True, launch_ok = (\<lambda>d p. True),
       device_memory = (\<lambda>d p. \<lparr>chunk_mem = (\<lambda>i. 0xFF), w_mem = (\<lambda>i. 7),
                                  output_mem = (\<lambda>i. 0xAA)\<rparr>)\<rparr> [''z'', ''y''] =
     Inr [(''z'', hash_hex (sha1_kernel [3] 1)), (''y'', hash_hex (sha1_kernel [1, 2] 2))] \<and>
   [''x'' \<mapsto> [1, 2 :: uchar]] ''x'' = [''y'' \<mapsto> [1, 2], ''z'' \<mapsto> [3]] ''y''"
  using digest_pure [of
      "\<lparr>name = ''G'', vendor = ''AMD'', global_mem_size = 4, type_str = ''GPU''\<rparr>"
      "\<lparr>file_content = [''x'' \<mapsto> [1, 2]], buffers_ok = (\<lambda>d p. True), int32_wraps = False,
       launch_ok = (\<lambda>d p. True),
       device_memory = (\<lambda>d p. \<lparr>chunk_mem = (\<lambda>i. 0), w_mem = (\<lambda>i. 0), output_mem = (\<lambda>i. 0)\<rparr>)\<rparr>" "[''x'']"
      "[(''x'', hash_hex (sha1_kernel [1, 2] 2))]"
      "\<lparr>name = ''C'', vendor = ''Intel'', global_mem_size = 2, type_str = ''CPU''\<rparr>"
      "\<lparr>file_content = [''y'' \<mapsto> [1, 2], ''z'' \<mapsto> [3]], buffers_ok = (\<lambda>d p. True),
       int32_wraps = True, launch_ok = (\<lambda>d p. True),
       device_memory = (\<lambda>d p. \<lparr>chunk_mem = (\<lambda>i. 0xFF), w_mem = (\<lambda>i. 7),
                                  output_mem = (\<lambda>i. 0xAA)\<rparr>)\<rparr>"
      "[''z'', ''y'']"
      "[(''z'', hash_hex (sha1_kernel [3] 1)), (''y'', hash_hex (sha1_kernel [1, 2] 2))]"
      "''x''" "hash_hex (sha1_kernel [1, 2] 2)" "''y''" "hash_hex (sha1_kernel [1, 2] 2)"]
  by (simp add: perform_hashing_def hash_file_def np_int32_def sha1_kernel_exec_one
        sha1_kernel_exec_numeral)

text \<open>
  Claim C7 at a failing input. \<open>list_opencl_devices\<close> goes through every platform, and
  the flattened catalog of the platforms \<open>[[], [G]]\<close> holds the device \<open>G\<close>, which the
  listing shows with the ID 0; \<open>main\<close> reads the first platform only and stops with
  "No OpenCL devices found.", also when the ID 0 is asked for. With the platforms
  \<open>[[C], [G]]\<close> the device \<open>C\<close> is selected although \<open>G\<close> has more memory.
\<close>

theorem first_platform_only:
  "concat [[], [\<lparr>name = ''G'', vendor = ''AMD'', global_mem_size = 4, type_str = ''GPU''\<rparr>]] =
     [\<lparr>name = ''G'', vendor = ''AMD'', global_mem_size = 4, type_str = ''GPU''\<rparr>] \<and>
   list_opencl_devices
     [[], [\<lparr>name = ''G'', vendor = ''AMD'', global_mem_size = 4, type_str = ''GPU''\<rparr>]] =
     [''Device ID: 0, Name: G, Type: GPU''] \<and>
   resolve_device
     [[], [\<lparr>name = ''G'', vendor = ''AMD'', global_mem_size = 4, type_str = ''GPU''\<rparr>]] None =
     Inl NoComputeDeviceError \<and>
   resolve_device
     [[], [\<lparr>name = ''G'', vendor = ''AMD'', global_mem_size = 4, type_str = ''GPU''\<rparr>]] (Some 0) =
     Inl NoComputeDeviceError \<and>
   resolve_device
     [[\<lparr>name = ''C'', vendor = ''Intel'', global_mem_size = 2, type_str = ''CPU''\<rparr>],
      [\<lparr>name = ''G'', vendor = ''AMD'', global_mem_size = 4, type_str = ''GPU''\<rparr>]] None =
     Inr \<lparr>name = ''C'', vendor = ''Intel'', global_mem_size = 2, type_str = ''CPU''\<rparr>"
  by (simp add: resolve_device_def select_best_device_def sorted_devices_def
        list_opencl_devices_def enumerate_eq_zip device_line_def str_nat.simps)

section \<open>Evaluating the kernel\<close>

text \<open>
  The digests of concrete messages are computed by rewriting. The equations below are
  the definitions of the steps with every 32 bit result masked, which changes nothing
  and keeps the numerals of the computation below \<open>2 ^ 32\<close>.
\<close>

lemma upt16: "[0..<16] = [0, 1, 2, 3, 4, 5, 6, 7, 8, 9, 10, 11, 12, 13, 14, 15]"
  by (simp add: upt_rec)

lemma mask32: "(x :: uint) AND 0xFFFFFFFF = x"
proof -
  have m: "(0xFFFFFFFF :: uint) = mask 32"
    by (simp add: mask_eq_exp_minus_1)
  show ?thesis
    unfolding m by (rule bit_eqI) (auto simp: bit_simps dest: bit_imp_le_length)
qed

lemma extend_step_eval:
  "extend_step i w =
     w @ [(push_bit 1 (w ! (i - 3) XOR w ! (i - 8) XOR w ! (i - 14) XOR w ! (i - 16)) OR
           drop_bit 31 (w ! (i - 3) XOR w ! (i - 8) XOR w ! (i - 14) XOR w ! (i - 16)))
          AND 0xFFFFFFFF]"
  by (simp only: extend_step_def Let_def mask32)

lemma round_step_eval:
  "round_step w i (a, b, c, d, e) =
     (((push_bit 5 a OR drop_bit 27 a) +
       (if i < 20 then (b AND c) OR (NOT b AND d)
        else if i < 40 then b XOR c XOR d
        else if i < 60 then (b AND c) OR (b AND d) OR (c AND d)
        else b XOR c XOR d) + e +
       (if i < 20 then 0x5A827999 else if i < 40 then 0x6ED9EBA1
        else if i < 60 then 0x8F1BBCDC else 0xCA62C1D6) + w ! i) AND 0xFFFFFFFF,
      a, (push_bit 30 b OR drop_bit 2 b) AND 0xFFFFFFFF, c, d)"
  by (simp add: round_step_def k_const_def mask32)

lemma process_chunk_eval:
  "process_chunk chunk (h0, h1, h2, h3, h4) =
     (case fold (round_step (schedule chunk)) [0..<80] (h0, h1, h2, h3, h4) of
        (a, b, c, d, e) \<Rightarrow>
          ((h0 + a) AND 0xFFFFFFFF, (h1 + b) AND 0xFFFFFFFF, (h2 + c) AND 0xFFFFFFFF,
           (h3 + d) AND 0xFFFFFFFF, (h4 + e) AND 0xFFFFFFFF))"
  by (simp add: process_chunk_def mask32)


lemma sha1_kernel_one_chunk:
  assumes "len < 64"
  shows "sha1_kernel input len = output_bytes (process_chunk (build_chunk input len 0) h_init)"
proof -
  from assms have "[0..<len div 64 + 1] = [0]"
    by simp
  then have "chunk_trace input len 0 = [build_chunk input len 0]"
    by (simp add: chunk_trace_map)
  then show ?thesis
    by (simp add: sha1_kernel_def chunk_loop_trace)
qed

lemma build_chunk_empty:
  "build_chunk [] 0 0 =
     [0x80, 0, 0, 0, 0, 0, 0, 0, 0, 0, 0, 0, 0, 0, 0, 0, 0, 0, 0, 0, 0, 0, 0, 0, 0, 0, 0, 0, 0, 0, 0, 0,
      0, 0, 0, 0, 0, 0, 0, 0, 0, 0, 0, 0, 0, 0, 0, 0, 0, 0, 0, 0, 0, 0, 0, 0, 0, 0, 0, 0, 0, 0, 0, 0]"
  by (simp add: build_chunk_def fill_chunk_def chunk_byte_def put_length_fold upt_rec)

lemma build_chunk_abc:
  "build_chunk [0x61, 0x62, 0x63] 3 0 =
     [0x61, 0x62, 0x63, 0x80, 0, 0, 0, 0, 0, 0, 0, 0, 0, 0, 0, 0, 0, 0, 0, 0, 0, 0, 0, 0, 0, 0, 0, 0, 0, 0, 0, 0,
      0, 0, 0, 0, 0, 0, 0, 0, 0, 0, 0, 0, 0, 0, 0, 0, 0, 0, 0, 0, 0, 0, 0, 0, 0, 0, 0, 0, 0, 0, 0, 0x18]"
  by (simp add: build_chunk_def fill_chunk_def chunk_byte_def put_length_fold upt_rec)

lemmas chunk_eval =
  process_chunk_eval schedule_def upt16 chunk_word_def extend_step_eval round_step_eval upt_rec

lemma process_chunk_empty:
  "process_chunk
     [0x80, 0, 0, 0, 0, 0, 0, 0, 0, 0, 0, 0, 0, 0, 0, 0, 0, 0, 0, 0, 0, 0, 0, 0, 0, 0, 0, 0, 0, 0, 0, 0,
      0, 0, 0, 0, 0, 0, 0, 0, 0, 0, 0, 0, 0, 0, 0, 0, 0, 0, 0, 0, 0, 0, 0, 0, 0, 0, 0, 0, 0, 0, 0, 0]
     (0x67452301, 0xEFCDAB89, 0x98BADCFE, 0x10325476, 0xC3D2E1F0) =
   (0xda39a3ee, 0x5e6b4b0d, 0x3255bfef, 0x95601890, 0xafd80709)"
  by (simp add: chunk_eval)

lemma process_chunk_abc:
  "process_chunk
     [0x61, 0x62, 0x63, 0x80, 0, 0, 0, 0, 0, 0, 0, 0, 0, 0, 0, 0, 0, 0, 0, 0, 0, 0, 0, 0, 0, 0, 0, 0, 0, 0, 0, 0,
      0, 0, 0, 0, 0, 0, 0, 0, 0, 0, 0, 0, 0, 0, 0, 0, 0, 0, 0, 0, 0, 0, 0, 0, 0, 0, 0, 0, 0, 0, 0, 0x18]
     (0x67452301, 0xEFCDAB89, 0x98BADCFE, 0x10325476, 0xC3D2E1F0) =
   (0xa9993e36, 0x4706816a, 0xba3e2571, 0x7850c26c, 0x9cd0d89d)"
  by (simp add: chunk_eval)

lemma hex_empty:
  "hash_hex (output_bytes (0xda39a3ee, 0x5e6b4b0d, 0x3255bfef, 0x95601890, 0xafd80709)) =
     ''da39a3ee5e6b4b0d3255bfef95601890afd80709''"
  by (simp add: hash_hex_def output_bytes_def word_bytes_def format_02x_def hex_digit_def)

lemma hex_abc:
  "hash_hex (output_bytes (0xa9993e36, 0x4706816a, 0xba3e2571, 0x7850c26c, 0x9cd0d89d)) =
     ''a9993e364706816aba3e25717850c26c9cd0d89d''"
  by (simp add: hash_hex_def output_bytes_def word_bytes_def format_02x_def hex_digit_def)

lemma sha1_kernel_empty:
  "hash_hex (sha1_kernel [] 0) = ''da39a3ee5e6b4b0d3255bfef95601890afd80709''"
  by (simp only: sha1_kernel_one_chunk [of 0, simplified] build_chunk_empty h_init_def
        process_chunk_empty hex_empty)

lemma sha1_kernel_abc:
  "hash_hex (sha1_kernel [0x61, 0x62, 0x63] 3) = ''a9993e364706816aba3e25717850c26c9cd0d89d''"
  by (simp only: sha1_kernel_one_chunk [of 3, simplified] build_chunk_abc h_init_def
        process_chunk_abc hex_abc)

section \<open>The compression of the kernel is the compression of the standard\<close>

lemma rotl_uint:
  assumes "0 < m" "m < 32"
  shows "word_rotl m (x :: uint) = push_bit m x OR drop_bit (32 - m) x"
proof (rule bit_word_eqI)
  fix n
  assume "n < LENGTH(32)"
  then have n: "n < 32" by simp
  show "bit (word_rotl m x) n = bit (push_bit m x OR drop_bit (32 - m) x) n"
  proof (cases "m \<le> n")
    case True
    with n assms have "(n + (32 - m)) mod 32 = n - m"
      by (simp add: mod_if)
    moreover from True n assms have "\<not> bit x (32 - m + n)"
      by (auto dest: bit_imp_le_length)
    ultimately show ?thesis
      using True n assms by (simp add: bit_simps)
  next
    case False
    with n assms have "(n + (32 - m)) mod 32 = 32 - m + n"
      by (simp add: add.commute)
    with False n assms show ?thesis
      by (simp add: bit_simps)
  qed
qed

lemma rotl1: "word_rotl 1 (x :: uint) = push_bit 1 x OR drop_bit 31 x"
  using rotl_uint [of 1 x] by simp

lemma rotl5: "word_rotl 5 (x :: uint) = push_bit 5 x OR drop_bit 27 x"
  using rotl_uint [of 5 x] by simp

lemma rotl30: "word_rotl 30 (x :: uint) = push_bit 30 x OR drop_bit 2 x"
  using rotl_uint [of 30 x] by simp

lemma fips_Ch_eq: "fips_Ch b c d = (b AND c) OR (NOT b AND d)"
  unfolding fips_Ch_def by (rule bit_eqI) (auto simp: bit_simps)

lemma fips_Maj_eq: "fips_Maj b c d = (b AND c) OR (b AND d) OR (c AND d)"
  unfolding fips_Maj_def by (rule bit_eqI) (auto simp: bit_simps)

lemma fips_M_chunk_word: "fips_M block t = chunk_word block t"
proof -
  let ?a = "push_bit 24 (ucast (block ! (4 * t)) :: uint)"
  let ?b = "push_bit 16 (ucast (block ! (4 * t + 1)) :: uint)"
  let ?c = "push_bit 8 (ucast (block ! (4 * t + 2)) :: uint)"
  let ?d = "ucast (block ! (4 * t + 3)) :: uint"
  have "fips_M block t = ?a + ?b + ?c + ?d"
    by (simp add: fips_M_def push_bit_eq_mult)
  also have "?a + ?b = ?a OR ?b"
    by (rule disjunctive_add) (auto simp: bit_simps dest: bit_imp_le_length)
  also have "(?a OR ?b) + ?c = (?a OR ?b) OR ?c"
    by (rule disjunctive_add) (auto simp: bit_simps dest: bit_imp_le_length)
  also have "((?a OR ?b) OR ?c) + ?d = ((?a OR ?b) OR ?c) OR ?d"
    by (rule disjunctive_add) (auto simp: bit_simps dest: bit_imp_le_length)
  finally show ?thesis
    by (simp add: chunk_word_def or.assoc)
qed

lemma fips_W_schedule:
  "n \<le> 64 \<Longrightarrow>
     fold extend_step [16..<16 + n] (map (chunk_word chunk) [0..<16]) =
       map (fips_W chunk) [0..<16 + n]"
proof (induction n)
  case 0
  have "\<forall>t \<in> set [0..<16]. chunk_word chunk t = fips_W chunk t"
    by (simp add: fips_W.simps fips_M_chunk_word)
  then show ?case
    by simp
next
  case (Suc n)
  let ?w = "map (fips_W chunk) [0..<16 + n]"
  have W: "fips_W chunk (16 + n) =
      word_rotl 1 (fips_W chunk (16 + n - 3) XOR fips_W chunk (16 + n - 8) XOR
                   fips_W chunk (16 + n - 14) XOR fips_W chunk (16 + n - 16))"
    by (subst fips_W.simps) simp
  have "[16..<16 + Suc n] = [16..<16 + n] @ [16 + n]"
    by (simp only: add_Suc_right upt_Suc_append [OF le_add1])
  then have "fold extend_step [16..<16 + Suc n] (map (chunk_word chunk) [0..<16]) =
      extend_step (16 + n) (fold extend_step [16..<16 + n] (map (chunk_word chunk) [0..<16]))"
    by (simp only: fold_append fold_simps comp_apply id_apply)
  also have "\<dots> = extend_step (16 + n) ?w"
    using Suc by simp
  also have "\<dots> = ?w @ [fips_W chunk (16 + n)]"
  proof -
    have nths:
      "?w ! (16 + n - 3) = fips_W chunk (16 + n - 3)"
      "?w ! (16 + n - 8) = fips_W chunk (16 + n - 8)"
      "?w ! (16 + n - 14) = fips_W chunk (16 + n - 14)"
      "?w ! (16 + n - 16) = fips_W chunk (16 + n - 16)"
      by simp_all
    show ?thesis
      by (simp only: extend_step_def Let_def nths W rotl1)
  qed
  also have "\<dots> = map (fips_W chunk) [0..<16 + Suc n]"
    by (simp only: add_Suc_right upt_Suc_append [OF le0] map_append list.map)
  finally show ?case .
qed

lemma schedule_nth: "t < 80 \<Longrightarrow> schedule chunk ! t = fips_W chunk t"
  using fips_W_schedule [of 64 chunk] by (simp add: schedule_def)

lemma k_const_fips_K:
  "fips_K t = (if t < 20 then k_const ! 0 else if t < 40 then k_const ! 1
               else if t < 60 then k_const ! 2 else k_const ! 3)"
  by (simp add: fips_K_def k_const_def)

lemma fips_rounds_fold:
  "n \<le> 80 \<Longrightarrow> fold (round_step (schedule chunk)) [0..<n] H = fips_rounds chunk n H"
proof (induction n)
  case 0
  then show ?case by simp
next
  case (Suc n)
  then have n: "n < 80" by simp
  obtain a b c d e where s: "fips_rounds chunk n H = (a, b, c, d, e)"
    by (cases "fips_rounds chunk n H") auto
  from Suc have "fold (round_step (schedule chunk)) [0..<Suc n] H =
      round_step (schedule chunk) n (a, b, c, d, e)"
    by (simp add: s)
  also have "\<dots> = fips_rounds chunk (Suc n) H"
    using n
    by (simp add: s round_step_def schedule_nth k_const_fips_K fips_f_def fips_Ch_eq fips_Maj_eq
          fips_Parity_def rotl5 rotl30)
  finally show ?case .
qed

lemma fips_block_process_chunk: "fips_block = process_chunk"
proof (intro ext)
  fix block :: "uchar list" and H :: hstate
  obtain h0 h1 h2 h3 h4 where H: "H = (h0, h1, h2, h3, h4)"
    by (cases H) auto
  show "fips_block block H = process_chunk block H"
    by (simp add: H fips_block_def process_chunk_def fips_rounds_fold [symmetric]
          add.commute split: prod.splits)
qed

lemma be32_word_bytes: "be32 = word_bytes"
  by (rule ext) (simp add: be32_def word_bytes_def upt_rec)

lemma fips_sha1_process_chunk:
  "fips_sha1 m = output_bytes (fold process_chunk (fips_blocks (fips_pad m)) h_init)"
  by (simp add: fips_sha1_def output_bytes_def fips_block_process_chunk be32_word_bytes
        fips_H0_def h_init_def split: prod.splits)

section \<open>Where the kernel agrees with the standard\<close>

text \<open>
  The kernel builds each chunk by position; the standard pads the message and cuts it.
  When the length field fits behind the byte \<open>0x80\<close> in the last chunk, and the length
  in bits fits 32 bits, the two give the same blocks.
\<close>

lemma be64_short:
  assumes "n < 2 ^ 32"
  shows "be64 n = [0, 0, 0, 0] @ word_bytes (word_of_nat n)"
proof -
  have hi: "(ucast (drop_bit k (word_of_nat n :: 64 word)) :: uchar) = 0" if "32 \<le> k" for k
  proof (rule bit_word_eqI)
    fix j
    assume "j < LENGTH(8)"
    have "bit n (k + j) = bit (take_bit 32 n) (k + j)"
      using assms by (simp add: take_bit_nat_eq_self)
    with that have "\<not> bit n (k + j)"
      by (simp add: bit_take_bit_iff)
    then show "bit (ucast (drop_bit k (word_of_nat n :: 64 word)) :: uchar) j = bit (0 :: uchar) j"
      by (simp add: bit_simps)
  qed
  have lo: "(ucast (drop_bit k (word_of_nat n :: 64 word)) :: uchar) =
            ucast (drop_bit k (word_of_nat n :: uint))" if "k \<le> 24" for k
    using that by (intro bit_word_eqI) (auto simp: bit_simps)
  show ?thesis
    by (simp add: be64_def upt8 word_bytes_def hi lo [of 24, simplified] lo [of 16, simplified]
          lo [of 8, simplified] lo [of 0, simplified])
qed


lemma length_be64: "length (be64 n) = 8"
  by (simp add: be64_def)

lemma fips_pad_short:
  assumes "length m mod 64 < 56"
  shows "fips_pad m =
           m @ [0x80] @ replicate (55 - length m mod 64) 0 @ be64 (8 * length m)"
proof -
  from assms have "119 - length m mod 64 = 64 + (55 - length m mod 64)"
    by linarith
  then have "(119 - length m mod 64) mod 64 = 55 - length m mod 64"
    by (simp only: mod_add_self1) simp
  then show ?thesis
    by (simp add: fips_pad_def)
qed

lemma fips_pad_length:
  assumes "length m mod 64 < 56"
  shows "length (fips_pad m) = 64 * (length m div 64 + 1)"
proof -
  have a: "length m - length m mod 64 = 64 * (length m div 64)"
    by (simp add: minus_mod_eq_mult_div)
  have "length m mod 64 \<le> length m"
    by (rule mod_less_eq_dividend)
  with assms have "length (fips_pad m) = length m - length m mod 64 + 64"
    by (simp add: fips_pad_short length_be64)
  then show ?thesis
    by (simp add: a)
qed

lemma fips_pad_nth_message:
  assumes "length m mod 64 < 56" and "p < length m"
  shows "fips_pad m ! p = m ! p"
  using assms by (simp add: fips_pad_short nth_append)

lemma fips_pad_nth_end:
  assumes "length m mod 64 < 56"
  shows "fips_pad m ! length m = 0x80"
  using assms by (simp add: fips_pad_short nth_append)

lemma fips_pad_nth_zero:
  assumes "length m mod 64 < 56" and "length m < p" and "p < length m + 56 - length m mod 64"
  shows "fips_pad m ! p = 0"
proof -
  from assms have "p - length m - 1 < 55 - length m mod 64"
    by linarith
  with assms(2) have "(replicate (55 - length m mod 64) (0 :: uchar) @ be64 (8 * length m)) !
      (p - length m - 1) = 0"
    by (simp add: nth_append)
  moreover have "fips_pad m ! p =
      (replicate (55 - length m mod 64) 0 @ be64 (8 * length m)) ! (p - length m - 1)"
    using assms(1,2) by (simp add: fips_pad_short nth_append nth_Cons')
  ultimately show ?thesis
    by simp
qed

lemma fips_pad_nth_length:
  assumes "length m mod 64 < 56" and "length m + 56 - length m mod 64 \<le> p"
  shows "fips_pad m ! p = be64 (8 * length m) ! (p - (length m + 56 - length m mod 64))"
proof -
  define r where "r = length m mod 64"
  have le: "r \<le> length m"
    unfolding r_def by (rule mod_less_eq_dividend)
  from assms have r: "r < 56" and p0: "length m + 56 - r \<le> p"
    by (simp_all add: r_def)
  from r p0 le have p: "length m < p" "\<not> p - length m - 1 < 55 - r"
    by linarith+
  from r p0 le have idx: "p - length m - 1 - (55 - r) = p - (length m + 56 - r)"
    by linarith
  have "fips_pad m ! p = (replicate (55 - r) 0 @ be64 (8 * length m)) ! (p - length m - 1)"
    using assms(1) p(1) by (simp add: fips_pad_short nth_append nth_Cons' r_def)
  also have "\<dots> = be64 (8 * length m) ! (p - length m - 1 - (55 - r))"
    using p(2) by (simp add: nth_append)
  finally show ?thesis
    by (simp only: idx) (simp only: r_def)
qed

lemma length_put_length: "length (put_length len chunk) = length chunk"
  by (simp add: put_length_fold)

lemma length_fill_chunk: "length (fill_chunk input len chunk_idx) = 64"
  by (simp add: fill_chunk_def)

lemma length_build_chunk: "length (build_chunk input len chunk_idx) = 64"
  by (simp add: build_chunk_def Let_def length_put_length length_fill_chunk)

lemma build_chunk_fips_pad:
  assumes rlt: "length m mod 64 < 56" and small: "length m < 2 ^ 29"
    and i: "i \<le> length m div 64"
  shows "build_chunk m (length m) i = take 64 (drop (64 * i) (fips_pad m))"
proof (rule nth_equalityI)
  define q where "q = length m div 64"
  define r where "r = length m mod 64"
  have L: "length m = 64 * q + r"
    by (simp add: q_def r_def)
  have r: "r < 56"
    using rlt by (simp add: r_def)
  have iq: "i \<le> q"
    using i by (simp add: q_def)
  have len_pad: "length (fips_pad m) = 64 * (q + 1)"
    using fips_pad_length [OF rlt] by (simp add: q_def)
  have msg: "fips_pad m ! p = m ! p" if "p < length m" for p
    using that by (rule fips_pad_nth_message [OF rlt])
  have zero: "fips_pad m ! p = 0" if "length m < p" "p < length m + 56 - r" for p
    using fips_pad_nth_zero [OF rlt, of p] that by (simp add: r_def)
  have field: "fips_pad m ! p = be64 (8 * length m) ! (p - (length m + 56 - r))"
    if "length m + 56 - r \<le> p" for p
    using fips_pad_nth_length [OF rlt, of p] that by (simp add: r_def)
  have len_take: "length (take 64 (drop (64 * i) (fips_pad m))) = 64"
    using iq by (simp add: len_pad)
  show "length (build_chunk m (length m) i) = length (take 64 (drop (64 * i) (fips_pad m)))"
    by (simp only: length_build_chunk len_take)
  fix j
  assume "j < length (build_chunk m (length m) i)"
  then have j: "j < 64"
    by (simp only: length_build_chunk)
  have in_pad: "64 * i + j < length (fips_pad m)"
    using j iq by (simp add: len_pad)
  have rhs: "take 64 (drop (64 * i) (fips_pad m)) ! j = fips_pad m ! (64 * i + j)"
    using j in_pad by simp
  have fill: "fill_chunk m (length m) i ! j = chunk_byte m (length m) i j"
    using j by (simp add: fill_chunk_def)
  show "build_chunk m (length m) i ! j = take 64 (drop (64 * i) (fips_pad m)) ! j"
  proof (cases "i = q")
    case False
    with iq have "i < q" by simp
    with j L have pos: "64 * i + j < length m"
      by linarith
    from False have "build_chunk m (length m) i ! j = chunk_byte m (length m) i j"
      by (simp add: build_chunk_def q_def fill)
    also have "\<dots> = m ! (64 * i + j)"
      using pos by (simp add: chunk_byte_def mult.commute)
    also have "\<dots> = fips_pad m ! (64 * i + j)"
      using pos by (simp only: msg)
    finally show ?thesis
      by (simp only: rhs)
  next
    case True
    have bits: "8 * length m < 2 ^ 32"
      using small by simp
    have "build_chunk m (length m) i = put_length (length m) (fill_chunk m (length m) i)"
      using True by (simp add: build_chunk_def q_def)
    also have "\<dots> = take 56 (fill_chunk m (length m) i) @ [0, 0, 0, 0] @
        word_bytes (word_of_nat (length m * 8))"
      by (rule put_length_closed) (rule length_fill_chunk)
    also have "[0, 0, 0, 0] @ word_bytes (word_of_nat (length m * 8)) = be64 (8 * length m)"
      using be64_short [OF bits] by (simp add: mult.commute)
    finally have build: "build_chunk m (length m) i =
        take 56 (fill_chunk m (length m) i) @ be64 (8 * length m)" .
    show ?thesis
    proof (cases "j < 56")
      case j56: True
      then have "build_chunk m (length m) i ! j = chunk_byte m (length m) i j"
        by (simp add: build nth_append length_fill_chunk fill)
      also have "\<dots> = fips_pad m ! (64 * i + j)"
      proof -
        consider "64 * i + j < length m" | "64 * i + j = length m" | "length m < 64 * i + j"
          by linarith
        then show ?thesis
        proof cases
          case 1
          then show ?thesis
            by (simp add: chunk_byte_def msg mult.commute)
        next
          case 2
          then have "fips_pad m ! (64 * i + j) = 0x80"
            using fips_pad_nth_end [OF rlt] by simp
          with 2 show ?thesis
            by (simp add: chunk_byte_def mult.commute)
        next
          case 3
          from 3 j56 True L have "64 * i + j < length m + 56 - r"
            by linarith
          with 3 have "fips_pad m ! (64 * i + j) = 0"
            by (rule zero)
          with 3 show ?thesis
            by (simp add: chunk_byte_def mult.commute)
        qed
      qed
      finally show ?thesis
        by (simp only: rhs)
    next
      case False
      then have "build_chunk m (length m) i ! j = be64 (8 * length m) ! (j - 56)"
        by (simp add: build nth_append length_fill_chunk)
      also have "\<dots> = fips_pad m ! (64 * i + j)"
      proof -
        from False True L r have a: "length m + 56 - r \<le> 64 * i + j"
          and b: "64 * i + j - (length m + 56 - r) = j - 56"
          by linarith+
        show ?thesis
          by (simp only: field [OF a] b)
      qed
      finally show ?thesis
        by (simp only: rhs)
    qed
  qed
qed

text \<open>
  On every message shorter than \<open>2 ^ 29\<close> bytes whose length modulo 64 is below 56,
  the kernel computes the SHA-1 digest of the standard: its chunks are the blocks of the
  padded message, and its compression is the standard's.
\<close>

lemma sha1_kernel_fips_sha1:
  assumes "length m mod 64 < 56" and "length m < 2 ^ 29"
  shows "sha1_kernel m (length m) = fips_sha1 m"
proof -
  have "map (build_chunk m (length m)) [0..<length m div 64 + 1] =
        map (\<lambda>i. take 64 (drop (64 * i) (fips_pad m))) [0..<length m div 64 + 1]"
  proof (rule map_cong [OF refl])
    fix i
    assume "i \<in> set [0..<length m div 64 + 1]"
    then have "i \<le> length m div 64"
      by auto
    then show "build_chunk m (length m) i = take 64 (drop (64 * i) (fips_pad m))"
      by (rule build_chunk_fips_pad [OF assms])
  qed
  moreover have "length (fips_pad m) div 64 = length m div 64 + 1"
    by (simp add: fips_pad_length [OF assms(1)])
  ultimately have "chunk_trace m (length m) 0 = fips_blocks (fips_pad m)"
    by (simp only: chunk_trace_map fips_blocks_def)
  then show ?thesis
    by (simp add: sha1_kernel_def chunk_loop_trace fips_sha1_process_chunk)
qed

section \<open>The 448 bit test vector of the standard\<close>

lemma replicate_numeral: "replicate (numeral k) x = x # replicate (pred_numeral k) x"
  by (simp add: numeral_eq_Suc)

lemma build_chunk_448:
  "build_chunk
     [0x61, 0x62, 0x63, 0x64, 0x62, 0x63, 0x64, 0x65, 0x63, 0x64, 0x65, 0x66, 0x64, 0x65, 0x66, 0x67,
      0x65, 0x66, 0x67, 0x68, 0x66, 0x67, 0x68, 0x69, 0x67, 0x68, 0x69, 0x6a, 0x68, 0x69, 0x6a, 0x6b,
      0x69, 0x6a, 0x6b, 0x6c, 0x6a, 0x6b, 0x6c, 0x6d, 0x6b, 0x6c, 0x6d, 0x6e, 0x6c, 0x6d, 0x6e, 0x6f,
      0x6d, 0x6e, 0x6f, 0x70, 0x6e, 0x6f, 0x70, 0x71] 56 0 =
     [0x61, 0x62, 0x63, 0x64, 0x62, 0x63, 0x64, 0x65, 0x63, 0x64, 0x65, 0x66, 0x64, 0x65, 0x66, 0x67,
      0x65, 0x66, 0x67, 0x68, 0x66, 0x67, 0x68, 0x69, 0x67, 0x68, 0x69, 0x6a, 0x68, 0x69, 0x6a, 0x6b,
      0x69, 0x6a, 0x6b, 0x6c, 0x6a, 0x6b, 0x6c, 0x6d, 0x6b, 0x6c, 0x6d, 0x6e, 0x6c, 0x6d, 0x6e, 0x6f,
      0x6d, 0x6e, 0x6f, 0x70, 0x6e, 0x6f, 0x70, 0x71, 0x00, 0x00, 0x00, 0x00, 0x00, 0x00, 0x01, 0xc0]"
  by (simp add: build_chunk_def fill_chunk_def chunk_byte_def put_length_fold upt_rec)

lemma process_chunk_448_kernel:
  "process_chunk
     [0x61, 0x62, 0x63, 0x64, 0x62, 0x63, 0x64, 0x65, 0x63, 0x64, 0x65, 0x66, 0x64, 0x65, 0x66, 0x67,
      0x65, 0x66, 0x67, 0x68, 0x66, 0x67, 0x68, 0x69, 0x67, 0x68, 0x69, 0x6a, 0x68, 0x69, 0x6a, 0x6b,
      0x69, 0x6a, 0x6b, 0x6c, 0x6a, 0x6b, 0x6c, 0x6d, 0x6b, 0x6c, 0x6d, 0x6e, 0x6c, 0x6d, 0x6e, 0x6f,
      0x6d, 0x6e, 0x6f, 0x70, 0x6e, 0x6f, 0x70, 0x71, 0x00, 0x00, 0x00, 0x00, 0x00, 0x00, 0x01, 0xc0]
     (0x67452301, 0xEFCDAB89, 0x98BADCFE, 0x10325476, 0xC3D2E1F0) =
   (0x1423848d, 0xf9dec1f0, 0x03ff7954, 0xa4124306, 0x766c8cc3)"
  by (simp add: chunk_eval)

lemma sha1_kernel_448:
  "sha1_kernel
     [0x61, 0x62, 0x63, 0x64, 0x62, 0x63, 0x64, 0x65, 0x63, 0x64, 0x65, 0x66, 0x64, 0x65, 0x66, 0x67,
      0x65, 0x66, 0x67, 0x68, 0x66, 0x67, 0x68, 0x69, 0x67, 0x68, 0x69, 0x6a, 0x68, 0x69, 0x6a, 0x6b,
      0x69, 0x6a, 0x6b, 0x6c, 0x6a, 0x6b, 0x6c, 0x6d, 0x6b, 0x6c, 0x6d, 0x6e, 0x6c, 0x6d, 0x6e, 0x6f,
      0x6d, 0x6e, 0x6f, 0x70, 0x6e, 0x6f, 0x70, 0x71] 56 =
   output_bytes (0x1423848d, 0xf9dec1f0, 0x03ff7954, 0xa4124306, 0x766c8cc3)"
  by (simp only: sha1_kernel_one_chunk [of 56, simplified] build_chunk_448 h_init_def
        process_chunk_448_kernel)

lemma fips_blocks_448:
  "fips_blocks (fips_pad
     [0x61, 0x62, 0x63, 0x64, 0x62, 0x63, 0x64, 0x65, 0x63, 0x64, 0x65, 0x66, 0x64, 0x65, 0x66, 0x67,
      0x65, 0x66, 0x67, 0x68, 0x66, 0x67, 0x68, 0x69, 0x67, 0x68, 0x69, 0x6a, 0x68, 0x69, 0x6a, 0x6b,
      0x69, 0x6a, 0x6b, 0x6c, 0x6a, 0x6b, 0x6c, 0x6d, 0x6b, 0x6c, 0x6d, 0x6e, 0x6c, 0x6d, 0x6e, 0x6f,
      0x6d, 0x6e, 0x6f, 0x70, 0x6e, 0x6f, 0x70, 0x71]) =
   [[0x61, 0x62, 0x63, 0x64, 0x62, 0x63, 0x64, 0x65, 0x63, 0x64, 0x65, 0x66, 0x64, 0x65, 0x66, 0x67,
     0x65, 0x66, 0x67, 0x68, 0x66, 0x67, 0x68, 0x69, 0x67, 0x68, 0x69, 0x6a, 0x68, 0x69, 0x6a, 0x6b,
     0x69, 0x6a, 0x6b, 0x6c, 0x6a, 0x6b, 0x6c, 0x6d, 0x6b, 0x6c, 0x6d, 0x6e, 0x6c, 0x6d, 0x6e, 0x6f,
     0x6d, 0x6e, 0x6f, 0x70, 0x6e, 0x6f, 0x70, 0x71, 0x80, 0x00, 0x00, 0x00, 0x00, 0x00, 0x00, 0x00],
    [0x00, 0x00, 0x00, 0x00, 0x00, 0x00, 0x00, 0x00, 0x00, 0x00, 0x00, 0x00, 0x00, 0x00, 0x00, 0x00,
     0x00, 0x00, 0x00, 0x00, 0x00, 0x00, 0x00, 0x00, 0x00, 0x00, 0x00, 0x00, 0x00, 0x00, 0x00, 0x00,
     0x00, 0x00, 0x00, 0x00, 0x00, 0x00, 0x00, 0x00, 0x00, 0x00, 0x00, 0x00, 0x00, 0x00, 0x00, 0x00,
     0x00, 0x00, 0x00, 0x00, 0x00, 0x00, 0x00, 0x00, 0x00, 0x00, 0x00, 0x00, 0x00, 0x00, 0x01, 0xc0]]"
  by (simp add: fips_blocks_def fips_pad_def be64_def upt_rec replicate_numeral)

lemma process_chunk_448_first:
  "process_chunk
     [0x61, 0x62, 0x63, 0x64, 0x62, 0x63, 0x64, 0x65, 0x63, 0x64, 0x65, 0x66, 0x64, 0x65, 0x66, 0x67,
      0x65, 0x66, 0x67, 0x68, 0x66, 0x67, 0x68, 0x69, 0x67, 0x68, 0x69, 0x6a, 0x68, 0x69, 0x6a, 0x6b,
      0x69, 0x6a, 0x6b, 0x6c, 0x6a, 0x6b, 0x6c, 0x6d, 0x6b, 0x6c, 0x6d, 0x6e, 0x6c, 0x6d, 0x6e, 0x6f,
      0x6d, 0x6e, 0x6f, 0x70, 0x6e, 0x6f, 0x70, 0x71, 0x80, 0x00, 0x00, 0x00, 0x00, 0x00, 0x00, 0x00]
     (0x67452301, 0xEFCDAB89, 0x98BADCFE, 0x10325476, 0xC3D2E1F0) =
   (0xf4286818, 0xc37b27ae, 0x0408f581, 0x84677148, 0x4a566572)"
  by (simp add: chunk_eval)

lemma process_chunk_448_second:
  "process_chunk
     [0x00, 0x00, 0x00, 0x00, 0x00, 0x00, 0x00, 0x00, 0x00, 0x00, 0x00, 0x00, 0x00, 0x00, 0x00, 0x00,
      0x00, 0x00, 0x00, 0x00, 0x00, 0x00, 0x00, 0x00, 0x00, 0x00, 0x00, 0x00, 0x00, 0x00, 0x00, 0x00,
      0x00, 0x00, 0x00, 0x00, 0x00, 0x00, 0x00, 0x00, 0x00, 0x00, 0x00, 0x00, 0x00, 0x00, 0x00, 0x00,
      0x00, 0x00, 0x00, 0x00, 0x00, 0x00, 0x00, 0x00, 0x00, 0x00, 0x00, 0x00, 0x00, 0x00, 0x01, 0xc0]
     (0xf4286818, 0xc37b27ae, 0x0408f581, 0x84677148, 0x4a566572) =
   (0x84983e44, 0x1c3bd26e, 0xbaae4aa1, 0xf95129e5, 0xe54670f1)"
  by (simp add: chunk_eval)

lemma fips_sha1_448:
  "fips_sha1
     [0x61, 0x62, 0x63, 0x64, 0x62, 0x63, 0x64, 0x65, 0x63, 0x64, 0x65, 0x66, 0x64, 0x65, 0x66, 0x67,
      0x65, 0x66, 0x67, 0x68, 0x66, 0x67, 0x68, 0x69, 0x67, 0x68, 0x69, 0x6a, 0x68, 0x69, 0x6a, 0x6b,
      0x69, 0x6a, 0x6b, 0x6c, 0x6a, 0x6b, 0x6c, 0x6d, 0x6b, 0x6c, 0x6d, 0x6e, 0x6c, 0x6d, 0x6e, 0x6f,
      0x6d, 0x6e, 0x6f, 0x70, 0x6e, 0x6f, 0x70, 0x71] =
   output_bytes (0x84983e44, 0x1c3bd26e, 0xbaae4aa1, 0xf95129e5, 0xe54670f1)"
  by (simp only: fips_sha1_process_chunk fips_blocks_448 h_init_def fold_simps comp_apply id_apply
        process_chunk_448_first process_chunk_448_second)

lemma hex_448_kernel:
  "hash_hex (output_bytes (0x1423848d, 0xf9dec1f0, 0x03ff7954, 0xa4124306, 0x766c8cc3)) =
     ''1423848df9dec1f003ff7954a4124306766c8cc3''"
  by (simp add: hash_hex_def output_bytes_def word_bytes_def format_02x_def hex_digit_def)

lemma hex_448_fips:
  "hash_hex (output_bytes (0x84983e44, 0x1c3bd26e, 0xbaae4aa1, 0xf95129e5, 0xe54670f1)) =
     ''84983e441c3bd26ebaae4aa1f95129e5e54670f1''"
  by (simp add: hash_hex_def output_bytes_def word_bytes_def format_02x_def hex_digit_def)

section \<open>The digests\<close>

text \<open>
  Claim C4, with the digest of \<open>abc\<close> as the kernel and the standard have it: hashing
  no bytes gives \<open>da39a3ee5e6b4b0d3255bfef95601890afd80709\<close> and hashing the three bytes
  \<open>abc\<close> gives the 40 characters \<open>a9993e364706816aba3e25717850c26c9cd0d89d\<close>.
\<close>

theorem known_vectors:
  "hash_hex (sha1_kernel [] 0) = ''da39a3ee5e6b4b0d3255bfef95601890afd80709'' \<and>
   hash_hex (sha1_kernel [0x61, 0x62, 0x63] 3) = ''a9993e364706816aba3e25717850c26c9cd0d89d''"
  by (simp only: sha1_kernel_empty sha1_kernel_abc simp_thms)

text \<open>
  Claim C4 as the specification writes it fails: its digest of \<open>abc\<close> has 39
  characters, the last \<open>d\<close> is missing.
\<close>

theorem known_vector_abc_counterexample:
  "hash_hex (sha1_kernel [0x61, 0x62, 0x63] 3) \<noteq> ''a9993e364706816aba3e25717850c26c9cd0d89''"
  by (simp add: sha1_kernel_abc)

text \<open>
  Claim C1 at a failing input, the 56 bytes
  \<open>abcdbcdecdefdefgefghfghighijhijkijkljklmklmnlmnomnopnopq\<close> of the standard's second
  example. The kernel runs \<open>56 div 64 + 1 = 1\<close> chunk and stores the length over the
  bytes 56 to 63 of that chunk, where it has just put \<open>0x80\<close>; the standard needs a
  second block for the length. The two digests differ.
\<close>

theorem sha1_kernel_448_differs:
  "hash_hex (sha1_kernel
     [0x61, 0x62, 0x63, 0x64, 0x62, 0x63, 0x64, 0x65, 0x63, 0x64, 0x65, 0x66, 0x64, 0x65, 0x66, 0x67,
      0x65, 0x66, 0x67, 0x68, 0x66, 0x67, 0x68, 0x69, 0x67, 0x68, 0x69, 0x6a, 0x68, 0x69, 0x6a, 0x6b,
      0x69, 0x6a, 0x6b, 0x6c, 0x6a, 0x6b, 0x6c, 0x6d, 0x6b, 0x6c, 0x6d, 0x6e, 0x6c, 0x6d, 0x6e, 0x6f,
      0x6d, 0x6e, 0x6f, 0x70, 0x6e, 0x6f, 0x70, 0x71] 56) =
     ''1423848df9dec1f003ff7954a4124306766c8cc3'' \<and>
   hash_hex (fips_sha1
     [0x61, 0x62, 0x63, 0x64, 0x62, 0x63, 0x64, 0x65, 0x63, 0x64, 0x65, 0x66, 0x64, 0x65, 0x66, 0x67,
      0x65, 0x66, 0x67, 0x68, 0x66, 0x67, 0x68, 0x69, 0x67, 0x68, 0x69, 0x6a, 0x68, 0x69, 0x6a, 0x6b,
      0x69, 0x6a, 0x6b, 0x6c, 0x6a, 0x6b, 0x6c, 0x6d, 0x6b, 0x6c, 0x6d, 0x6e, 0x6c, 0x6d, 0x6e, 0x6f,
      0x6d, 0x6e, 0x6f, 0x70, 0x6e, 0x6f, 0x70, 0x71]) =
     ''84983e441c3bd26ebaae4aa1f95129e5e54670f1''"
  by (simp only: sha1_kernel_448 fips_sha1_448 hex_448_kernel hex_448_fips simp_thms)

text \<open>
  Claim C2 at two failing inputs. For a message of \<open>2 ^ 29\<close> bytes, whatever they are,
  the last chunk is the chunk \<open>2 ^ 23\<close>; its last eight bytes are all zero, because
  \<open>bit_len\<close> is a \<open>uint\<close> and \<open>2 ^ 29 * 8\<close> wraps to 0, while the 64 bit length
  field of \<open>2 ^ 32\<close> bits is \<open>00 00 00 01 00 00 00 00\<close>. For the 56 bytes of the
  example above, the first byte past the end of the message is the byte 56 of the only
  chunk, and it is \<open>0x00\<close>, not \<open>0x80\<close>: the length field has overwritten it.
\<close>

theorem length_field_truncated:
  "536870912 div 64 = (8388608 :: nat) \<and>
   drop 56 (build_chunk input 536870912 8388608) = [0, 0, 0, 0, 0, 0, 0, 0] \<and>
   be64 (8 * 536870912) = [0, 0, 0, 1, 0, 0, 0, 0] \<and>
   build_chunk
     [0x61, 0x62, 0x63, 0x64, 0x62, 0x63, 0x64, 0x65, 0x63, 0x64, 0x65, 0x66, 0x64, 0x65, 0x66, 0x67,
      0x65, 0x66, 0x67, 0x68, 0x66, 0x67, 0x68, 0x69, 0x67, 0x68, 0x69, 0x6a, 0x68, 0x69, 0x6a, 0x6b,
      0x69, 0x6a, 0x6b, 0x6c, 0x6a, 0x6b, 0x6c, 0x6d, 0x6b, 0x6c, 0x6d, 0x6e, 0x6c, 0x6d, 0x6e, 0x6f,
      0x6d, 0x6e, 0x6f, 0x70, 0x6e, 0x6f, 0x70, 0x71] 56 0 ! 56 = 0"
proof -
  have "length (fill_chunk input 536870912 8388608) = 64"
    by (simp add: fill_chunk_def)
  then have "drop 56 (build_chunk input 536870912 8388608) = [0, 0, 0, 0, 0, 0, 0, 0]"
    by (simp add: build_chunk_def put_length_closed word_bytes_def)
  moreover have "be64 (8 * 536870912) = [0, 0, 0, 1, 0, 0, 0, 0]"
    by (simp add: be64_def upt8)
  ultimately show ?thesis
    by (simp add: build_chunk_448)
qed

end
